theory Spec2Isabelle
  imports Main "HOL-Library.AList" "HOL-Library.Sublist"
begin

section \<open>The document tree\<close>

text \<open>
  A node of the tree the HTML parser hands to \<^verbatim>\<open>embedResources\<close>. An element carries the
  fields the code reads and writes: \<^verbatim>\<open>type\<close>, \<^verbatim>\<open>name\<close>, \<^verbatim>\<open>attribs\<close> (an object keyed by
  attribute name, in insertion order; \<^verbatim>\<open>delete tag.attribs\<close> leaves it undefined, which is
  \<open>None\<close>) and \<^verbatim>\<open>children\<close>. A text node is \<^verbatim>\<open>{data: d, type: 'text'}\<close>; a comment holds
  its data, and a directive such as the doctype holds its name and its data.
\<close>

datatype node =
    Element string string "(string \<times> string) list option" "node list"
  | Text string
  | Comment string
  | Directive string string

text \<open>How the process can stop early: \<^verbatim>\<open>process.exit(1)\<close> inside \<^verbatim>\<open>assertError\<close>, or a
  JavaScript exception that nothing catches.\<close>

datatype halt = Exit nat | Uncaught string

text \<open>A computation that prints lines with \<^verbatim>\<open>console.log\<close> and then either halts the
  process or returns a value.\<close>

type_synonym 'a io = "string list \<times> (halt + 'a)"

definition ret :: "'a \<Rightarrow> 'a io" where
  "ret x = ([], Inr x)"

definition say :: "string \<Rightarrow> unit io" where
  "say msg = ([msg], Inr ())"

definition stop :: "halt \<Rightarrow> 'a io" where
  "stop h = ([], Inl h)"

definition andThen :: "'a io \<Rightarrow> ('a \<Rightarrow> 'b io) \<Rightarrow> 'b io" where
  "andThen m f =
     (case m of
        (l, Inl h) \<Rightarrow> (l, Inl h)
      | (l, Inr x) \<Rightarrow> (case f x of (l', r) \<Rightarrow> (l @ l', r)))"

section \<open>The environment: flags, file system, path and image libraries\<close>

text \<open>
  The command-line flags, the base path, and the library functions the embedding pass
  calls. \<^verbatim>\<open>fs.readFileSync\<close> and \<^verbatim>\<open>base64-img\<close>'s \<^verbatim>\<open>base64Sync\<close> throw when the file cannot be
  read: \<open>None\<close>.
\<close>

record env =
  basePath :: string
  verbose :: bool
  images :: bool
  external :: bool
  existsSync :: "string \<Rightarrow> bool"
  readFileSync :: "string \<Rightarrow> string option"
  base64Sync :: "string \<Rightarrow> string option"
  path_join :: "string \<Rightarrow> string \<Rightarrow> string"
  path_dirname :: "string \<Rightarrow> string"

definition assertError :: "bool \<Rightarrow> string \<Rightarrow> unit io" where
  "assertError err msg =
     (if err then andThen (say (''Error: '' @ msg)) (\<lambda>_. stop (Exit 1)) else ret ())"

definition verboseLog :: "env \<Rightarrow> string \<Rightarrow> unit io" where
  "verboseLog e msg = (if verbose e then say msg else ret ())"

section \<open>The CSS URL rewriter\<close>

text \<open>
  The regular expression
  \<^verbatim>\<open>/url\((?:"|')?(.*?\.(?:jpg|gif|png|jpeg|exif|bmp|tiff|ppm|pgm|pbm|pnm|svg))(?:"|')?\)/gi\<close>
  as a backtracking matcher. Case is folded on ASCII letters; \<^verbatim>\<open>.\<close> matches every
  character but a line terminator. A string of the model is the UTF-8 text of the
  JavaScript string, so the line terminators are the bytes LF and CR and the byte
  sequences E2 80 A8 and E2 80 A9 of the characters U+2028 and U+2029.
\<close>

definition toLower :: "char \<Rightarrow> char" where
  "toLower c =
     (let n = (of_char c :: nat) in if 65 \<le> n \<and> n \<le> 90 then char_of (n + 32) else c)"

definition toLowerCase :: "string \<Rightarrow> string" where
  "toLowerCase s = map toLower s"

definition startsWith :: "string \<Rightarrow> string \<Rightarrow> bool" where
  "startsWith s p = (take (length p) s = p)"

definition startsWithCI :: "string \<Rightarrow> string \<Rightarrow> bool" where
  "startsWithCI s p = (toLowerCase (take (length p) s) = p)"

definition isQuote :: "char \<Rightarrow> bool" where
  "isQuote c = (c = CHR 0x22 \<or> c = CHR 0x27)"

definition lineTerminatorAhead :: "string \<Rightarrow> bool" where
  "lineTerminatorAhead s =
     (case s of
        [] \<Rightarrow> False
      | c # cs \<Rightarrow>
          c = CHR 0x0A \<or> c = CHR 0x0D \<or>
          (c = CHR 0xE2 \<and>
             (take 2 cs = [CHR 0x80, CHR 0xA8] \<or> take 2 cs = [CHR 0x80, CHR 0xA9])))"

definition extensions :: "string list" where
  "extensions = [''jpg'', ''gif'', ''png'', ''jpeg'', ''exif'', ''bmp'', ''tiff'', ''ppm'',
                 ''pgm'', ''pbm'', ''pnm'', ''svg'']"

text \<open>\<^verbatim>\<open>(?:"|')?\)\<close>: the text after the extension; the result is what follows the match.\<close>

fun closing :: "string \<Rightarrow> string option" where
  "closing [] = None"
| "closing (c # cs) =
     (if isQuote c \<and> cs \<noteq> [] \<and> hd cs = CHR '')'' then Some (tl cs)
      else if c = CHR '')'' then Some cs
      else None)"

text \<open>One alternative of the extension group, at the text after the dot: the extension as
  written and the text after the whole match.\<close>

definition tryExtension :: "string \<Rightarrow> string \<Rightarrow> (string \<times> string) option" where
  "tryExtension s x =
     (if startsWithCI s x then
        (case closing (drop (length x) s) of
           None \<Rightarrow> None
         | Some rest \<Rightarrow> Some (take (length x) s, rest))
      else None)"

fun firstExtension :: "string \<Rightarrow> string list \<Rightarrow> (string \<times> string) option" where
  "firstExtension s [] = None"
| "firstExtension s (x # xs) =
     (case tryExtension s x of Some r \<Rightarrow> Some r | None \<Rightarrow> firstExtension s xs)"

text \<open>\<^verbatim>\<open>\.(?:jpg|...)(?:"|')?\)\<close> at the head of the text.\<close>

fun dotExtension :: "string \<Rightarrow> (string \<times> string) option" where
  "dotExtension [] = None"
| "dotExtension (c # cs) = (if c = CHR ''.'' then firstExtension cs extensions else None)"

text \<open>The lazy \<^verbatim>\<open>.*?\<close>: the shortest run of characters after which the rest of the
  pattern matches. \<open>acc\<close> is the run consumed so far. The result is the capture group
  and the text after the match.\<close>

fun lazyPath :: "string \<Rightarrow> string \<Rightarrow> (string \<times> string) option" where
  "lazyPath acc [] = None"
| "lazyPath acc (c # cs) =
     (case dotExtension (c # cs) of
        Some (x, rest) \<Rightarrow> Some (acc @ [c] @ x, rest)
      | None \<Rightarrow> if lineTerminatorAhead (c # cs) then None else lazyPath (acc @ [c]) cs)"

text \<open>The whole pattern, tried at the head of the text. The optional opening quote is
  greedy: taken first, given back when the rest fails.\<close>

definition matchAt :: "string \<Rightarrow> (string \<times> string) option" where
  "matchAt s =
     (if startsWithCI s ''url('' then
        (let r = drop 4 s in
         if r \<noteq> [] \<and> isQuote (hd r) then
           (case lazyPath [] (tl r) of Some m \<Rightarrow> Some m | None \<Rightarrow> lazyPath [] r)
         else lazyPath [] r)
      else None)"

text \<open>
  \<^verbatim>\<open>data.replace(regex, (match, p1) => ...)\<close> with the global flag: the text is scanned
  from left to right, every match is replaced by what the callback returns, and the scan
  goes on after the match. \<open>skip\<close> counts the characters of the text that still belong
  to the match just replaced. The callback joins the captured path to the stylesheet's
  directory and encodes that file; an unreadable file makes \<^verbatim>\<open>base64Sync\<close> throw.
\<close>

definition embedImage :: "env \<Rightarrow> string \<Rightarrow> string \<Rightarrow> string io" where
  "embedImage e baseResourceUrl p1 =
     (let p = path_join e baseResourceUrl p1 in
      andThen (verboseLog e (''Fetching image for css resource '' @ p)) (\<lambda>_.
        case base64Sync e p of
          None \<Rightarrow> stop (Uncaught ''base64Sync'')
        | Some uri \<Rightarrow> ret (''url('' @ uri @ '')'')))"

fun replaceFrom :: "env \<Rightarrow> string \<Rightarrow> nat \<Rightarrow> string \<Rightarrow> string io" where
  "replaceFrom e d skip [] = ret []"
| "replaceFrom e d (Suc skip) (c # cs) = replaceFrom e d skip cs"
| "replaceFrom e d 0 (c # cs) =
     (case matchAt (c # cs) of
        None \<Rightarrow>
          (case replaceFrom e d 0 cs of
             (l, Inl h) \<Rightarrow> (l, Inl h)
           | (l, Inr out) \<Rightarrow> (l, Inr (c # out)))
      | Some (p1, rest) \<Rightarrow>
          (case embedImage e d p1 of
             (l, Inl h) \<Rightarrow> (l, Inl h)
           | (l, Inr u) \<Rightarrow>
               (case replaceFrom e d (length cs - length rest) cs of
                  (l', Inl h) \<Rightarrow> (l @ l', Inl h)
                | (l', Inr out) \<Rightarrow> (l @ l', Inr (u @ out)))))"

definition replaceUrls :: "env \<Rightarrow> string \<Rightarrow> string \<Rightarrow> string io" where
  "replaceUrls e baseResourceUrl data = replaceFrom e baseResourceUrl 0 data"

text \<open>A path that the pattern reads as one path: no quote, no closing parenthesis, and
  no line terminator at any place in it.\<close>

definition cleanPath :: "string \<Rightarrow> bool" where
  "cleanPath p =
     (list_all (\<lambda>c. \<not> isQuote c \<and> c \<noteq> CHR '')'') p \<and>
      list_all (\<lambda>i. \<not> lineTerminatorAhead (drop i p)) [0..<length p])"

section \<open>Embedding one tag\<close>

text \<open>JavaScript truthiness of an attribute lookup: defined and not the empty string.\<close>

definition truthy :: "string option \<Rightarrow> bool" where
  "truthy v = (case v of None \<Rightarrow> False | Some s \<Rightarrow> s \<noteq> [])"

definition orElse :: "string option \<Rightarrow> string \<Rightarrow> string" where
  "orElse v old = (case v of None \<Rightarrow> old | Some s \<Rightarrow> if s = [] then old else s)"

text \<open>
  \<^verbatim>\<open>fetchAndEmbedResource(tag, requiredAttributes, type, pathAttribute, newTagType,
  newTagName)\<close>. The tag is changed in place in the source; here the changed tag is
  returned. \<^verbatim>\<open>delete tag.attribs.src\<close> names the attribute \<^verbatim>\<open>src\<close> whatever the path
  attribute is; \<^verbatim>\<open>delete tag.attribs\<close> follows for a stylesheet.
\<close>

definition embedText ::
  "env \<Rightarrow> string \<Rightarrow> string \<Rightarrow> string \<Rightarrow> (string \<times> string) list \<Rightarrow> string \<Rightarrow>
   string option \<Rightarrow> string option \<Rightarrow> string \<Rightarrow> node io" where
  "embedText e ty nm type al filePath newTagType newTagName data =
     andThen
       (if type = ''stylesheet'' then
          andThen (replaceUrls e (path_dirname e filePath) data) (\<lambda>d. ret (d, None))
        else ret (data, Some (AList.delete ''src'' al)))
       (\<lambda>(d, at). ret (Element (orElse newTagType ty) (orElse newTagName nm) at [Text d]))"

definition fetchLocal ::
  "env \<Rightarrow> string \<Rightarrow> string \<Rightarrow> (string \<times> string) list \<Rightarrow> node list \<Rightarrow> string \<Rightarrow> string \<Rightarrow>
   string option \<Rightarrow> string option \<Rightarrow> node io" where
  "fetchLocal e ty nm al ch type src newTagType newTagName =
     (let filePath = path_join e (basePath e) src in
      andThen (verboseLog e (''Fetching '' @ type @ '' '' @ src)) (\<lambda>_.
        if \<not> existsSync e filePath then
          andThen (say (''Unable to fetch '' @ type @ '' '' @ src))
            (\<lambda>_. ret (Element ty nm (Some al) ch))
        else if type \<noteq> ''image'' then
          (case readFileSync e filePath of
             None \<Rightarrow> stop (Uncaught ''readFileSync'')
           | Some data \<Rightarrow> embedText e ty nm type al filePath newTagType newTagName data)
        else
          (case base64Sync e filePath of
             None \<Rightarrow> stop (Uncaught ''base64Sync'')
           | Some uri \<Rightarrow> ret (Element ty nm (Some (AList.update ''src'' uri al)) ch))))"

definition isExternal :: "string \<Rightarrow> bool" where
  "isExternal src = startsWith src ''http''"

fun fetchAndEmbedResource ::
  "env \<Rightarrow> node \<Rightarrow> string list \<Rightarrow> string \<Rightarrow> string \<Rightarrow> string option \<Rightarrow> string option \<Rightarrow>
   node io" where
  "fetchAndEmbedResource e (Element ty nm None ch) req type pathAttribute newTagType newTagName =
     ret (Element ty nm None ch)"
| "fetchAndEmbedResource e (Element ty nm (Some al) ch) req type pathAttribute newTagType
     newTagName =
     (if list_all (\<lambda>a. truthy (map_of al a)) req then
        (case map_of al pathAttribute of
           None \<Rightarrow> stop (Uncaught ''TypeError'')
         | Some src \<Rightarrow>
             if \<not> isExternal src then
               fetchLocal e ty nm al ch type src newTagType newTagName
             else if external e then
               andThen (verboseLog e (''Fetching '' @ type @ ''  '' @ src)) (\<lambda>_.
               andThen (assertError True ''Resolving external files is not supported yet.'')
                 (\<lambda>_. ret (Element ty nm (Some al) ch)))
             else ret (Element ty nm (Some al) ch))
      else ret (Element ty nm (Some al) ch))"
| "fetchAndEmbedResource e n req type pathAttribute newTagType newTagName = ret n"

section \<open>The embedding pass over a document\<close>

text \<open>
  \<^verbatim>\<open>domutils.findAll(test, dom)\<close> lists, in document order, the elements that satisfy the
  test; it descends only through nodes whose type is \<^verbatim>\<open>tag\<close>, \<^verbatim>\<open>script\<close> or \<^verbatim>\<open>style\<close>.
  \<^verbatim>\<open>tags.forEach(f)\<close> then changes each listed element in place. The two together are a
  walk of the tree in document order: an element is changed first, then the elements
  below it as they were found, then its siblings. The changed element holds the walked
  children unless the change replaced its children; then the elements found below it are
  no longer part of the document.

  The source takes the three lists before the first change. No pass changes what the
  test of a later pass reads (a script keeps its type and name, and only elements named
  \<^verbatim>\<open>link\<close> are renamed), so each pass below finds its tags in the tree the pass before
  left. In a parsed document script and style elements hold text only and link and img
  elements are empty, so no found tag lies below a tag whose children were replaced.
\<close>

definition isTag :: "string \<Rightarrow> bool" where
  "isTag ty = (ty = ''tag'' \<or> ty = ''script'' \<or> ty = ''style'')"

fun childrenOf :: "node \<Rightarrow> node list" where
  "childrenOf (Element ty nm at ch) = ch"
| "childrenOf n = []"

fun withChildren :: "node \<Rightarrow> node list \<Rightarrow> node" where
  "withChildren (Element ty nm at ch) ch' = Element ty nm at ch'"
| "withChildren n ch' = n"

fun forEachFound :: "(node \<Rightarrow> bool) \<Rightarrow> (node \<Rightarrow> node io) \<Rightarrow> node list \<Rightarrow> node list io"
  and forFound :: "(node \<Rightarrow> bool) \<Rightarrow> (node \<Rightarrow> node io) \<Rightarrow> node \<Rightarrow> node io" where
  "forEachFound test f [] = ([], Inr [])"
| "forEachFound test f (n # ns) =
     (case forFound test f n of
        (l, Inl h) \<Rightarrow> (l, Inl h)
      | (l, Inr n') \<Rightarrow>
          (case forEachFound test f ns of
             (l', Inl h) \<Rightarrow> (l @ l', Inl h)
           | (l', Inr ns') \<Rightarrow> (l @ l', Inr (n' # ns'))))"
| "forFound test f (Element ty nm at ch) =
     (if isTag ty then
        (case (if test (Element ty nm at ch) then f (Element ty nm at ch)
               else ([], Inr (Element ty nm at ch))) of
           (l, Inl h) \<Rightarrow> (l, Inl h)
         | (l, Inr n') \<Rightarrow>
             (case forEachFound test f ch of
                (l', Inl h) \<Rightarrow> (l @ l', Inl h)
              | (l', Inr ch') \<Rightarrow>
                  (l @ l', Inr (if childrenOf n' = ch then withChildren n' ch' else n'))))
      else ([], Inr (Element ty nm at ch)))"
| "forFound test f n = ([], Inr n)"

fun typeIs :: "string \<Rightarrow> node \<Rightarrow> bool" where
  "typeIs t (Element ty nm at ch) = (ty = t)"
| "typeIs t n = False"

fun nameIs :: "string \<Rightarrow> node \<Rightarrow> bool" where
  "nameIs t (Element ty nm at ch) = (nm = t)"
| "nameIs t n = False"

definition embedScript :: "env \<Rightarrow> node \<Rightarrow> node io" where
  "embedScript e tag = fetchAndEmbedResource e tag [''src''] ''script'' ''src'' None None"

definition embedLink :: "env \<Rightarrow> node \<Rightarrow> node io" where
  "embedLink e tag =
     fetchAndEmbedResource e tag [''rel'', ''href''] ''stylesheet'' ''href''
       (Some ''style'') (Some ''style'')"

definition embedImg :: "env \<Rightarrow> node \<Rightarrow> node io" where
  "embedImg e tag = fetchAndEmbedResource e tag [''src''] ''image'' ''src'' None None"

text \<open>\<^verbatim>\<open>embedResources(dom, filePath)\<close> up to the call of \<^verbatim>\<open>writeFile\<close>: the document that
  is written.\<close>

definition embedResources :: "env \<Rightarrow> node list \<Rightarrow> node list io" where
  "embedResources e tree =
     andThen (verboseLog e ''Embedding resources...'') (\<lambda>_.
     andThen (forEachFound (typeIs ''script'') (embedScript e) tree) (\<lambda>dom1.
     andThen (forEachFound (nameIs ''link'') (embedLink e) dom1) (\<lambda>dom2.
       if images e then forEachFound (nameIs ''img'') (embedImg e) dom2 else ret dom2)))"

section \<open>Writing the document\<close>

text \<open>
  \<^verbatim>\<open>writeFile\<close> concatenates \<^verbatim>\<open>domutils.getOuterHTML(elem)\<close> over the top-level nodes. The
  rendering below is the one the serializer behind \<^verbatim>\<open>getOuterHTML\<close> gives with no options,
  in HTML mode: text as it is; a comment and a directive between their brackets; an
  element of a tag type as its opening tag with the attributes in order, its children,
  and a closing tag unless the name is a void one. An attribute with an empty value is
  written as its name alone; in any other value each double quote is written \<^verbatim>\<open>&quot;\<close>.
  The parser gives elements the types \<^verbatim>\<open>tag\<close>, \<^verbatim>\<open>script\<close> and \<^verbatim>\<open>style\<close> only, and the pass sets
  no other type. Below an \<^verbatim>\<open>svg\<close> or \<^verbatim>\<open>math\<close> element the serializer leaves HTML mode; how
  the attributes and empty elements are written there is not part of this rendering.
\<close>

definition singleTag :: "string list" where
  "singleTag = [''area'', ''base'', ''basefont'', ''br'', ''col'', ''command'', ''embed'',
     ''frame'', ''hr'', ''img'', ''input'', ''isindex'', ''keygen'', ''link'', ''meta'',
     ''param'', ''source'', ''track'', ''wbr'']"

fun escapeQuotes :: "string \<Rightarrow> string" where
  "escapeQuotes [] = []"
| "escapeQuotes (c # cs) = (if c = CHR 0x22 then ''&quot;'' else [c]) @ escapeQuotes cs"

fun formatAttrs :: "(string \<times> string) list \<Rightarrow> string" where
  "formatAttrs [] = []"
| "formatAttrs ((k, v) # al) =
     '' '' @ k @ (if v = [] then [] else ''='' @ [CHR 0x22] @ escapeQuotes v @ [CHR 0x22])
       @ formatAttrs al"

fun getOuterHTML :: "node \<Rightarrow> string"
  and renderAll :: "node list \<Rightarrow> string" where
  "getOuterHTML (Text d) = d"
| "getOuterHTML (Comment d) = ''<!--'' @ d @ ''-->''"
| "getOuterHTML (Directive nm d) = ''<'' @ d @ ''>''"
| "getOuterHTML (Element ty nm at ch) =
     (if isTag ty then
        ''<'' @ nm @ (case at of None \<Rightarrow> [] | Some al \<Rightarrow> formatAttrs al) @ ''>''
          @ renderAll ch
          @ (if nm \<in> set singleTag then [] else ''</'' @ nm @ ''>'')
      else if ty = ''root'' then renderAll ch
      else [])"
| "renderAll [] = []"
| "renderAll (n # ns) = getOuterHTML n @ renderAll ns"

text \<open>Where an element sits in a document: at the top level, or below elements of type
  \<^verbatim>\<open>tag\<close> that are neither \<^verbatim>\<open>link\<close> nor \<^verbatim>\<open>img\<close> (the elements that no pass selects and
  that hold other elements in a parsed document).\<close>

inductive inDocument :: "node \<Rightarrow> node list \<Rightarrow> bool" where
  here: "n \<in> set ns \<Longrightarrow> inDocument n ns"
| below: "Element ''tag'' nm at ch \<in> set ns \<Longrightarrow> nm \<noteq> ''link'' \<Longrightarrow> nm \<noteq> ''img'' \<Longrightarrow>
          inDocument n ch \<Longrightarrow> inDocument n ns"

section \<open>Choosing the input files\<close>

text \<open>\<^verbatim>\<open>file.split('.')\<close>: the pieces between the dots, at least one piece.\<close>

fun split :: "char \<Rightarrow> string \<Rightarrow> string list" where
  "split sep [] = [[]]"
| "split sep (c # cs) =
     (if c = sep then [] # split sep cs
      else (case split sep cs of [] \<Rightarrow> [[c]] | p # ps \<Rightarrow> (c # p) # ps))"

text \<open>The test of the \<^verbatim>\<open>fs.readdir\<close> callback:
  \<^verbatim>\<open>file.split('.').pop().toLowerCase() == 'html'\<close>.\<close>

definition isHtmlFile :: "string \<Rightarrow> bool" where
  "isHtmlFile file = (toLowerCase (last (split (CHR ''.'') file)) = ''html'')"

definition htmlFiles :: "string list \<Rightarrow> string list" where
  "htmlFiles data = filter isHtmlFile data"

text \<open>The extension of an entry as the specification uses the word: the text after the
  last dot of a name that has a dot; a name without a dot has none.\<close>

definition extensionOf :: "string \<Rightarrow> string option" where
  "extensionOf file =
     (if CHR ''.'' \<in> set file then Some (last (split (CHR ''.'') file)) else None)"

definition extensionIsHtml :: "string \<Rightarrow> bool" where
  "extensionIsHtml file =
     (case extensionOf file of None \<Rightarrow> False | Some x \<Rightarrow> toLowerCase x = ''html'')"

section \<open>The completion counters\<close>

record counters =
  numberOfFilesToProcess :: nat
  numberOfFilesProcessed :: nat

text \<open>
  The callback of \<^verbatim>\<open>fs.writeFile\<close> in \<^verbatim>\<open>writeFile\<close>. When files remain, the source calls
  \<^verbatim>\<open>Spinner.setSpinnerTitle\<close> on the imported constructor \<^verbatim>\<open>Spinner\<close>, not on the instance
  \<^verbatim>\<open>spinner\<close>. \<open>static\<close> says whether the constructor has such a function; calling a
  property that is undefined throws a \<^verbatim>\<open>TypeError\<close>.
\<close>

definition writeCallback ::
  "bool \<Rightarrow> env \<Rightarrow> counters \<Rightarrow> string \<Rightarrow> string option \<Rightarrow> counters io" where
  "writeCallback static e st filePath err =
     andThen (assertError (err \<noteq> None)
                (''Failed to write file '' @ filePath @ '' - '' @ (case err of None \<Rightarrow> [] | Some m \<Rightarrow> m)))
       (\<lambda>_.
     andThen (verboseLog e ''Success!'') (\<lambda>_.
       let st' = st\<lparr>numberOfFilesProcessed := numberOfFilesProcessed st + 1\<rparr> in
       if numberOfFilesProcessed st' = numberOfFilesToProcess st' then
         andThen (say ''Done :)'') (\<lambda>_. ret st')
       else if static then ret st'
       else stop (Uncaught ''TypeError'')))"

text \<open>The write callbacks of a run, in the order in which the writes finish; each entry
  is the output path and the error of the write, if any.\<close>

fun writeCallbacks ::
  "bool \<Rightarrow> env \<Rightarrow> counters \<Rightarrow> (string \<times> string option) list \<Rightarrow> counters io" where
  "writeCallbacks static e st [] = ([], Inr st)"
| "writeCallbacks static e st ((filePath, err) # ws) =
     (case writeCallback static e st filePath err of
        (l, Inl h) \<Rightarrow> (l, Inl h)
      | (l, Inr st') \<Rightarrow>
          (case writeCallbacks static e st' ws of (l', r) \<Rightarrow> (l @ l', r)))"

fun showNat :: "nat \<Rightarrow> string" where
  "showNat n =
     (if n < 10 then [char_of (48 + n)] else showNat (n div 10) @ [char_of (48 + n mod 10)])"

text \<open>The \<^verbatim>\<open>fs.readdir\<close> callback after the directory was read: the files chosen, the
  counter set, and the announcement. With no file chosen the callback prints the notice
  and returns; nothing is queued.\<close>

definition readdirCallback :: "env \<Rightarrow> string list \<Rightarrow> (counters \<times> string list) io" where
  "readdirCallback e data =
     (let files = htmlFiles data;
          st = \<lparr>numberOfFilesToProcess = length files, numberOfFilesProcessed = 0\<rparr> in
      if numberOfFilesToProcess st > 0 then
        andThen (say (''Processing '' @ showNat (numberOfFilesToProcess st) @ '' html file''
                        @ (if numberOfFilesToProcess st > 1 then ''s'' else [])
                        @ '' in directory '' @ basePath e))
          (\<lambda>_. ret (st, files))
      else
        andThen (say (''Did not find any .html files in directory '' @ basePath e))
          (\<lambda>_. ret (st, [])))"

text \<open>A test of \<^verbatim>\<open>findAll\<close> that selects no element of type \<^verbatim>\<open>tag\<close> other than
  \<^verbatim>\<open>link\<close> and \<^verbatim>\<open>img\<close>; the three tests of \<^verbatim>\<open>embedResources\<close> are such.\<close>

definition passesPlain :: "(node \<Rightarrow> bool) \<Rightarrow> bool" where
  "passesPlain test =
     (\<forall>nm at ch. nm \<noteq> ''link'' \<longrightarrow> nm \<noteq> ''img'' \<longrightarrow> \<not> test (Element ''tag'' nm at ch))"

section \<open>A small source directory for concrete runs\<close>

definition demoFiles :: "(string \<times> string) list" where
  "demoFiles =
     [(''src/a.js'', ''X''),
      (''src/b.css'', ''p{background:url(img/c.png)}''),
      (''src/plain.css'', ''p{color:red}''),
      (''src/img/c.png'', ''UE5H''),
      (''src/d.png'', ''UE5H''),
      (''src/favicon.ico'', ''url(d.png)''),
      (''src/broken.css'', ''p{background:url(gone.png)}''),
      (''src/fonts.css'', ''url(a.woff) url(d.png)'')]"

text \<open>\<^verbatim>\<open>path.join\<close> and \<^verbatim>\<open>path.dirname\<close> for slash-separated paths: the parts are joined
  with a slash and the result is normalised (empty parts and \<^verbatim>\<open>.\<close> dropped, \<^verbatim>\<open>..\<close> resolved,
  a trailing slash kept).\<close>

fun joinWith :: "string \<Rightarrow> string list \<Rightarrow> string" where
  "joinWith sep [] = []"
| "joinWith sep [p] = p"
| "joinWith sep (p # q # ps) = p @ sep @ joinWith sep (q # ps)"

fun normalizeParts :: "bool \<Rightarrow> string list \<Rightarrow> string list \<Rightarrow> string list" where
  "normalizeParts ab st [] = rev st"
| "normalizeParts ab st (p # ps) =
     (if p = [] \<or> p = ''.'' then normalizeParts ab st ps
      else if p = ''..'' then
        (case st of
           [] \<Rightarrow> if ab then normalizeParts ab [] ps else normalizeParts ab [''..''] ps
         | t # ts \<Rightarrow>
             if t = ''..'' then normalizeParts ab (''..'' # t # ts) ps
             else normalizeParts ab ts ps)
      else normalizeParts ab (p # st) ps)"

definition demoNormalize :: "string \<Rightarrow> string" where
  "demoNormalize p =
     (if p = [] then ''.''
      else
        (let ab = (hd p = CHR ''/''); tr = (last p = CHR ''/'');
             body = joinWith ''/'' (normalizeParts ab [] (split (CHR ''/'') p))
         in if body = [] then (if ab then ''/'' else if tr then ''./'' else ''.'')
            else (if ab then ''/'' else []) @ body @ (if tr then ''/'' else [])))"

definition demoJoin :: "string \<Rightarrow> string \<Rightarrow> string" where
  "demoJoin a b =
     (if a = [] then demoNormalize b
      else if b = [] then demoNormalize a
      else demoNormalize (a @ ''/'' @ b))"

definition demoDirname :: "string \<Rightarrow> string" where
  "demoDirname p =
     (if CHR ''/'' \<notin> set p then ''.''
      else
        (let d = rev (tl (dropWhile (\<lambda>c. c \<noteq> CHR ''/'') (rev p)))
         in if d = [] then ''/'' else d))"

definition demoEnv :: "bool \<Rightarrow> bool \<Rightarrow> env" where
  "demoEnv img ext =
     \<lparr>basePath = ''src/'', verbose = False, images = img, external = ext,
      existsSync = (\<lambda>p. map_of demoFiles p \<noteq> None),
      readFileSync = map_of demoFiles,
      base64Sync = (\<lambda>p. map_option (\<lambda>d. ''data:image/png;base64,'' @ d) (map_of demoFiles p)),
      path_join = demoJoin,
      path_dirname = demoDirname\<rparr>"

section \<open>Lemmas on the walk and on rendering\<close>

lemma demo_paths:
  "demoJoin ''src/'' ''a.js'' = ''src/a.js''"
  "demoJoin ''src/'' ''gone.js'' = ''src/gone.js''"
  "demoJoin ''src/'' ''b.css'' = ''src/b.css''"
  "demoJoin ''src/'' ''plain.css'' = ''src/plain.css''"
  "demoJoin ''src/'' ''broken.css'' = ''src/broken.css''"
  "demoJoin ''src/'' ''d.png'' = ''src/d.png''"
  by code_simp+

lemma forEachFound_member:
  "forEachFound test f ns = (l, Inr out) \<Longrightarrow> n \<in> set ns \<Longrightarrow>
   \<exists>l' n'. forFound test f n = (l', Inr n') \<and> n' \<in> set out"
proof (induction ns arbitrary: l out)
  case Nil
  then show ?case by simp
next
  case (Cons a ns)
  obtain l1 r1 where a: "forFound test f a = (l1, r1)" by (cases "forFound test f a")
  obtain l2 r2 where b: "forEachFound test f ns = (l2, r2)" by (cases "forEachFound test f ns")
  from Cons.prems(1) a b obtain a' ns' where r: "r1 = Inr a'" "r2 = Inr ns'" "out = a' # ns'"
    by (auto split: sum.splits)
  show ?case
  proof (cases "n = a")
    case True
    with a r show ?thesis by auto
  next
    case False
    with Cons.prems(2) have "n \<in> set ns" by simp
    from Cons.IH[OF b[unfolded r(2)] this] r show ?thesis by auto
  qed
qed

lemma forFound_plain:
  assumes "forFound test f (Element ''tag'' nm at ch) = (l, Inr n')"
    and "\<not> test (Element ''tag'' nm at ch)"
  shows "\<exists>l' ch'. forEachFound test f ch = (l', Inr ch') \<and> n' = Element ''tag'' nm at ch'"
  using assms
  by (auto simp: isTag_def split: prod.splits sum.splits)

lemma inDocument_forEachFound:
  assumes "inDocument n ns" and "forEachFound test f ns = (l, Inr out)" and "passesPlain test"
  shows "\<exists>l' n'. forFound test f n = (l', Inr n') \<and> inDocument n' out"
  using assms
proof (induction arbitrary: l out rule: inDocument.induct)
  case (here n ns)
  then show ?case using forEachFound_member inDocument.here by blast
next
  case (below nm at ch ns n)
  from forEachFound_member[OF below.prems(1) below.hyps(1)]
  obtain l1 a' where a: "forFound test f (Element ''tag'' nm at ch) = (l1, Inr a')" "a' \<in> set out"
    by blast
  have nt: "\<not> test (Element ''tag'' nm at ch)"
    using below.prems(2) below.hyps(2,3) by (simp add: passesPlain_def)
  from forFound_plain[OF a(1) nt] obtain l2 ch' where
    c: "forEachFound test f ch = (l2, Inr ch')" "a' = Element ''tag'' nm at ch'" by blast
  from below.IH[OF c(1) below.prems(2)] obtain l' n' where
    "forFound test f n = (l', Inr n')" "inDocument n' ch'" by blast
  then show ?case using a(2) c(2) below.hyps(2,3) inDocument.below by blast
qed

lemma sublist_into_append: "sublist xs ys \<Longrightarrow> sublist xs (ps @ ys @ ss)"
proof -
  assume "sublist xs ys"
  then obtain a b where "ys = a @ xs @ b" by (auto simp: sublist_def)
  then have "ps @ ys @ ss = (ps @ a) @ xs @ (b @ ss)" by simp
  then show ?thesis unfolding sublist_def by blast
qed

lemma sublist_renderAll_member: "n \<in> set ns \<Longrightarrow> sublist (getOuterHTML n) (renderAll ns)"
proof (induction ns)
  case Nil then show ?case by simp
next
  case (Cons a ns)
  show ?case
  proof (cases "n = a")
    case True
    then show ?thesis by simp
  next
    case False
    with Cons have "sublist (getOuterHTML n) (renderAll ns)" by simp
    from sublist_into_append[OF this, of "getOuterHTML a" "[]"] show ?thesis by simp
  qed
qed

lemma inDocument_rendered: "inDocument n ns \<Longrightarrow> sublist (getOuterHTML n) (renderAll ns)"
proof (induction rule: inDocument.induct)
  case (here n ns)
  then show ?case by (rule sublist_renderAll_member)
next
  case (below nm at ch ns n)
  have "sublist (getOuterHTML n) (getOuterHTML (Element ''tag'' nm at ch))"
    using sublist_into_append[OF below.IH,
        of "''<'' @ nm @ (case at of None \<Rightarrow> [] | Some al \<Rightarrow> formatAttrs al) @ ''>''"
           "if nm \<in> set singleTag then [] else ''</'' @ nm @ ''>''"]
    by (simp add: isTag_def)
  then show ?case
    using sublist_renderAll_member[OF below.hyps(1)] sublist_order.order.trans by blast
qed

lemma forEachFound_Text: "forEachFound test f [Text d] = ([], Inr [Text d])"
  by simp

lemma embedResources_Inr:
  assumes "embedResources e tree = (l, Inr out)"
  shows "\<exists>l1 d1 l2 d2 l3.
     forEachFound (typeIs ''script'') (embedScript e) tree = (l1, Inr d1) \<and>
     forEachFound (nameIs ''link'') (embedLink e) d1 = (l2, Inr d2) \<and>
     (if images e then forEachFound (nameIs ''img'') (embedImg e) d2 = (l3, Inr out)
      else out = d2)"
  using assms
  by (auto simp: embedResources_def andThen_def verboseLog_def say_def ret_def
      split: prod.splits sum.splits if_splits)

lemma forFound_unselected_text:
  assumes "forFound test f (Element ty nm at [Text d]) = (l, Inr n')"
    and "\<not> test (Element ty nm at [Text d])"
  shows "n' = Element ty nm at [Text d]"
  using assms by (auto split: if_splits)

lemma forFound_unselected_empty:
  assumes "forFound test f (Element ty nm at []) = (l, Inr n')"
    and "\<not> test (Element ty nm at [])"
  shows "n' = Element ty nm at []"
  using assms by (auto split: if_splits)

lemma embedScript_local:
  assumes "map_of al ''src'' = Some src" and "src \<noteq> []" and "\<not> isExternal src"
    and "existsSync e (path_join e (basePath e) src)"
    and "readFileSync e (path_join e (basePath e) src) = Some X"
  shows "embedScript e (Element ty nm (Some al) ch) =
     ((if verbose e then [''Fetching script '' @ src] else []),
      Inr (Element ty nm (Some (AList.delete ''src'' al)) [Text X]))"
  using assms
  by (simp add: embedScript_def fetchLocal_def embedText_def truthy_def orElse_def
      verboseLog_def say_def ret_def andThen_def)

lemma forFound_replaced:
  assumes "forFound test f (Element ty nm at ch) = (l, Inr n')"
    and "test (Element ty nm at ch)" and "isTag ty"
    and "f (Element ty nm at ch) = (l1, Inr (Element ty' nm' at' [Text d]))"
  shows "n' = Element ty' nm' at' [Text d]"
proof -
  obtain l2 r2 where c: "forEachFound test f ch = (l2, r2)" by (cases "forEachFound test f ch")
  with assms obtain ch' where r: "r2 = Inr ch'"
    and n: "n' = (if [Text d] = ch then Element ty' nm' at' ch' else Element ty' nm' at' [Text d])"
    by (auto split: sum.splits)
  show ?thesis
  proof (cases "[Text d] = ch")
    case True
    with c r have "ch' = [Text d]" by auto
    with n show ?thesis by simp
  next
    case False
    with n show ?thesis by simp
  qed
qed

section \<open>Claims on one tag\<close>

text \<open>
  C9. For every eligible tag, the external-versus-local classification of the path
  attribute value is a pure prefix test: the value is classified external if and only
  if it starts with the four characters \<^verbatim>\<open>http\<close>. An external value never reaches the
  file system: the result is the untouched tag, or the fatal error when the external flag
  is set, whatever files exist. A value that is not external goes to the local branch.
  So a relative path such as \<^verbatim>\<open>httpdocs/app.js\<close> is external and is never loaded.
\<close>

theorem external_is_prefix_test:
  assumes "list_all (\<lambda>a. truthy (map_of al a)) req"
    and "map_of al pathAttribute = Some src"
  shows "(isExternal src \<longleftrightarrow> (\<exists>rest. src = ''http'' @ rest)) \<and>
    (isExternal src \<longrightarrow>
       fetchAndEmbedResource e (Element ty nm (Some al) ch) req type pathAttribute nt nn =
         (if external e then
            ((if verbose e then [''Fetching '' @ type @ ''  '' @ src] else [])
               @ [''Error: Resolving external files is not supported yet.''], Inl (Exit 1))
          else ([], Inr (Element ty nm (Some al) ch)))) \<and>
    (\<not> isExternal src \<longrightarrow>
       fetchAndEmbedResource e (Element ty nm (Some al) ch) req type pathAttribute nt nn =
         fetchLocal e ty nm al ch type src nt nn)"
proof -
  have "isExternal src \<longleftrightarrow> (\<exists>rest. src = ''http'' @ rest)"
  proof
    assume "isExternal src"
    then have "take (length ''http'') src = ''http''"
      by (simp only: isExternal_def startsWith_def)
    then have "src = ''http'' @ drop (length ''http'') src" by (metis append_take_drop_id)
    then show "\<exists>rest. src = ''http'' @ rest" ..
  next
    assume "\<exists>rest. src = ''http'' @ rest"
    then show "isExternal src" by (auto simp: isExternal_def startsWith_def)
  qed
  then show ?thesis
    using assms
    by (simp add: verboseLog_def say_def ret_def andThen_def assertError_def stop_def)
qed

theorem external_is_prefix_test_witness:
  "isExternal ''httpdocs/app.js'' \<and>
   fetchAndEmbedResource (demoEnv False False)
     (Element ''script'' ''script'' (Some [(''src'', ''httpdocs/app.js'')]) [])
     [''src''] ''script'' ''src'' None None =
     ([], Inr (Element ''script'' ''script'' (Some [(''src'', ''httpdocs/app.js'')]) []))"
  using external_is_prefix_test [of "[(''src'', ''httpdocs/app.js'')]" "[''src'']" "''src''"
      "''httpdocs/app.js''" "demoEnv False False" "''script''" "''script''" "[]" "''script''"
      None None]
  by (simp add: truthy_def demoEnv_def)

text \<open>
  C5. For every eligible tag whose path is classified external: with the external flag
  off the tag is returned untouched and nothing is printed; with the flag on the call
  prints the error of \<^verbatim>\<open>assertError\<close> and ends the process with exit code 1. Neither
  outcome reads a file or fetches anything.
\<close>

theorem external_untouched_or_fatal:
  assumes "list_all (\<lambda>a. truthy (map_of al a)) req"
    and "map_of al pathAttribute = Some src"
    and "isExternal src"
  shows "(\<not> external e \<longrightarrow>
       fetchAndEmbedResource e (Element ty nm (Some al) ch) req type pathAttribute nt nn =
         ([], Inr (Element ty nm (Some al) ch))) \<and>
    (external e \<longrightarrow>
       fetchAndEmbedResource e (Element ty nm (Some al) ch) req type pathAttribute nt nn =
         ((if verbose e then [''Fetching '' @ type @ ''  '' @ src] else [])
            @ [''Error: Resolving external files is not supported yet.''], Inl (Exit 1)))"
  using assms
  by (simp add: verboseLog_def say_def ret_def andThen_def assertError_def stop_def)

theorem external_untouched_or_fatal_witness:
  "fetchAndEmbedResource (demoEnv False False)
     (Element ''tag'' ''link'' (Some [(''rel'', ''stylesheet''), (''href'', ''https://cdn.example/x.css'')]) [])
     [''rel'', ''href''] ''stylesheet'' ''href'' (Some ''style'') (Some ''style'') =
     ([], Inr (Element ''tag'' ''link''
        (Some [(''rel'', ''stylesheet''), (''href'', ''https://cdn.example/x.css'')]) [])) \<and>
   fetchAndEmbedResource (demoEnv False True)
     (Element ''tag'' ''link'' (Some [(''rel'', ''stylesheet''), (''href'', ''https://cdn.example/x.css'')]) [])
     [''rel'', ''href''] ''stylesheet'' ''href'' (Some ''style'') (Some ''style'') =
     ([''Error: Resolving external files is not supported yet.''], Inl (Exit 1))"
  using external_untouched_or_fatal [of "[(''rel'', ''stylesheet''), (''href'', ''https://cdn.example/x.css'')]"
      "[''rel'', ''href'']" "''href''" "''https://cdn.example/x.css''" "demoEnv False False"
      "''tag''" "''link''" "[]" "''stylesheet''" "Some ''style''" "Some ''style''"]
    external_untouched_or_fatal [of "[(''rel'', ''stylesheet''), (''href'', ''https://cdn.example/x.css'')]"
      "[''rel'', ''href'']" "''href''" "''https://cdn.example/x.css''" "demoEnv False True"
      "''tag''" "''link''" "[]" "''stylesheet''" "Some ''style''" "Some ''style''"]
  by (simp add: truthy_def demoEnv_def isExternal_def startsWith_def)

text \<open>
  C4. For every eligible tag whose path is not external and whose file does not exist:
  the call prints the warning \<^verbatim>\<open>Unable to fetch <type> <src>\<close> and returns the tag with its
  type, name, attributes and children unchanged, and the process does not halt. The walk
  over the found tags goes on after the warning: to the tags found below this one and to
  the remaining tags.
\<close>

theorem missing_file_leaves_tag:
  assumes "list_all (\<lambda>a. truthy (map_of al a)) req"
    and "map_of al pathAttribute = Some src"
    and "\<not> isExternal src"
    and "\<not> existsSync e (path_join e (basePath e) src)"
  shows "fetchAndEmbedResource e (Element ty nm (Some al) ch) req type pathAttribute nt nn =
       ((if verbose e then [''Fetching '' @ type @ '' '' @ src] else [])
          @ [''Unable to fetch '' @ type @ '' '' @ src],
        Inr (Element ty nm (Some al) ch)) \<and>
    (isTag ty \<longrightarrow> test (Element ty nm (Some al) ch) \<longrightarrow>
       forEachFound test (\<lambda>t. fetchAndEmbedResource e t req type pathAttribute nt nn)
         (Element ty nm (Some al) ch # rest) =
       andThen ((if verbose e then [''Fetching '' @ type @ '' '' @ src] else [])
                  @ [''Unable to fetch '' @ type @ '' '' @ src], Inr ())
         (\<lambda>_. andThen
            (forEachFound test (\<lambda>t. fetchAndEmbedResource e t req type pathAttribute nt nn) ch)
            (\<lambda>ch'. andThen
               (forEachFound test (\<lambda>t. fetchAndEmbedResource e t req type pathAttribute nt nn) rest)
               (\<lambda>rest'. ret (Element ty nm (Some al) ch' # rest')))))"
proof -
  have f: "fetchAndEmbedResource e (Element ty nm (Some al) ch) req type pathAttribute nt nn =
       ((if verbose e then [''Fetching '' @ type @ '' '' @ src] else [])
          @ [''Unable to fetch '' @ type @ '' '' @ src],
        Inr (Element ty nm (Some al) ch))"
    using assms
    by (simp add: fetchLocal_def verboseLog_def say_def ret_def andThen_def)
  define g where "g = (\<lambda>t. fetchAndEmbedResource e t req type pathAttribute nt nn)"
  have g: "g (Element ty nm (Some al) ch) =
       ((if verbose e then [''Fetching '' @ type @ '' '' @ src] else [])
          @ [''Unable to fetch '' @ type @ '' '' @ src],
        Inr (Element ty nm (Some al) ch))"
    using f by (simp add: g_def)
  have "isTag ty \<longrightarrow> test (Element ty nm (Some al) ch) \<longrightarrow>
       forEachFound test g (Element ty nm (Some al) ch # rest) =
       andThen ((if verbose e then [''Fetching '' @ type @ '' '' @ src] else [])
                  @ [''Unable to fetch '' @ type @ '' '' @ src], Inr ())
         (\<lambda>_. andThen (forEachFound test g ch)
            (\<lambda>ch'. andThen (forEachFound test g rest)
               (\<lambda>rest'. ret (Element ty nm (Some al) ch' # rest'))))"
    by (simp add: g andThen_def ret_def split: prod.splits sum.splits)
  then show ?thesis using f unfolding g_def by blast
qed

theorem missing_file_leaves_tag_witness:
  "forEachFound (typeIs ''script'') (embedScript (demoEnv False False))
     [Element ''script'' ''script'' (Some [(''src'', ''gone.js'')]) [],
      Element ''script'' ''script'' (Some [(''src'', ''a.js'')]) []] =
   ([''Unable to fetch script gone.js''],
    Inr [Element ''script'' ''script'' (Some [(''src'', ''gone.js'')]) [],
         Element ''script'' ''script'' (Some []) [Text ''X'']])"
  using missing_file_leaves_tag [of "[(''src'', ''gone.js'')]" "[''src'']" "''src''" "''gone.js''"
      "demoEnv False False" "''script''" "''script''" "[]" "''script''" None None
      "typeIs ''script''" "[Element ''script'' ''script'' (Some [(''src'', ''a.js'')]) []]"]
  apply (simp only: embedScript_def [abs_def])
  apply (simp add: truthy_def demoEnv_def isExternal_def startsWith_def demo_paths demoFiles_def
      isTag_def andThen_def ret_def fetchLocal_def embedText_def orElse_def verboseLog_def say_def)
  done

section \<open>Claims on the whole pass\<close>

lemma passesPlain_tests:
  "passesPlain (typeIs ''script'')" "passesPlain (nameIs ''link'')" "passesPlain (nameIs ''img'')"
  by (simp_all add: passesPlain_def)


text \<open>An element that holds only one text node, or nothing, and that the link and image
  tests do not select stays where it is through the last two passes.\<close>

lemma later_passes_keep:
  assumes "forEachFound (nameIs ''link'') (embedLink e) d1 = (l2, Inr d2)"
    and "if images e then forEachFound (nameIs ''img'') (embedImg e) d2 = (l3, Inr out)
         else out = d2"
    and "inDocument (Element ty nm at ch) d1"
    and "ch = [Text d] \<or> ch = []"
    and "nm \<noteq> ''link''" and "nm \<noteq> ''img''"
  shows "inDocument (Element ty nm at ch) out"
proof -
  have sel: "\<not> nameIs ''link'' (Element ty nm at ch)" "\<not> nameIs ''img'' (Element ty nm at ch)"
    using assms(5,6) by simp_all
  from inDocument_forEachFound[OF assms(3) assms(1) passesPlain_tests(2)]
  obtain l' n' where a: "forFound (nameIs ''link'') (embedLink e) (Element ty nm at ch) = (l', Inr n')"
    "inDocument n' d2" by blast
  have "n' = Element ty nm at ch"
    using assms(4) a(1) sel(1) forFound_unselected_text forFound_unselected_empty by blast
  with a have in2: "inDocument (Element ty nm at ch) d2" by simp
  show ?thesis
  proof (cases "images e")
    case False
    with assms(2) in2 show ?thesis by simp
  next
    case True
    with assms(2) have p3: "forEachFound (nameIs ''img'') (embedImg e) d2 = (l3, Inr out)" by simp
    from inDocument_forEachFound[OF in2 p3 passesPlain_tests(3)]
    obtain l'' n'' where b: "forFound (nameIs ''img'') (embedImg e) (Element ty nm at ch) = (l'', Inr n'')"
      "inDocument n'' out" by blast
    have "n'' = Element ty nm at ch"
      using assms(4) b(1) sel(2) forFound_unselected_text forFound_unselected_empty by blast
    with b show ?thesis by simp
  qed
qed

lemma formatAttrs_only_src:
  "\<forall>kv \<in> set al. fst kv = ''src'' \<Longrightarrow> AList.delete ''src'' al = []"
  by (induction al) (auto simp: AList.delete_eq)

text \<open>
  C1 (as amended). For every script element of the document whose \<^verbatim>\<open>src\<close> attribute is
  present, not empty, not external, and names a file that exists and reads as \<open>X\<close>: when
  the pass completes, the element is still a script, its \<^verbatim>\<open>src\<close> attribute is removed,
  its other attributes are kept, and its children are the single text node \<open>X\<close>. When
  \<^verbatim>\<open>src\<close> was the element's only attribute, the written output contains
  \<^verbatim>\<open><script>X</script>\<close>.
\<close>

theorem script_is_embedded:
  assumes run: "embedResources e tree = (l, Inr out)"
    and tag: "inDocument (Element ''script'' ''script'' (Some al) ch) tree"
    and src: "map_of al ''src'' = Some src" "src \<noteq> []" "\<not> isExternal src"
    and fl: "existsSync e (path_join e (basePath e) src)"
      "readFileSync e (path_join e (basePath e) src) = Some X"
  shows "inDocument (Element ''script'' ''script'' (Some (AList.delete ''src'' al)) [Text X]) out \<and>
    ((\<forall>kv \<in> set al. fst kv = ''src'') \<longrightarrow>
       sublist (''<script>'' @ X @ ''</script>'') (renderAll out))"
proof -
  let ?new = "Element ''script'' ''script'' (Some (AList.delete ''src'' al)) [Text X]"
  from embedResources_Inr[OF run] obtain l1 d1 l2 d2 l3 where
    p1: "forEachFound (typeIs ''script'') (embedScript e) tree = (l1, Inr d1)" and
    p2: "forEachFound (nameIs ''link'') (embedLink e) d1 = (l2, Inr d2)" and
    p3: "if images e then forEachFound (nameIs ''img'') (embedImg e) d2 = (l3, Inr out)
         else out = d2" by blast
  from inDocument_forEachFound[OF tag p1 passesPlain_tests(1)]
  obtain l' n' where a:
    "forFound (typeIs ''script'') (embedScript e) (Element ''script'' ''script'' (Some al) ch) = (l', Inr n')"
    "inDocument n' d1" by blast
  have "n' = ?new"
    by (rule forFound_replaced[OF a(1) _ _ embedScript_local[OF src fl]])
       (simp_all add: isTag_def)
  with a(2) have "inDocument ?new d1" by simp
  from later_passes_keep[OF p2 p3 this] have inOut: "inDocument ?new out" by simp
  from inDocument_rendered[OF inOut]
  have r: "sublist (''<script'' @ formatAttrs (AList.delete ''src'' al) @ ''>'' @ X @ ''</script>'')
      (renderAll out)"
    by (simp add: isTag_def singleTag_def)
  have "(\<forall>kv \<in> set al. fst kv = ''src'') \<longrightarrow>
       sublist (''<script>'' @ X @ ''</script>'') (renderAll out)"
    using r formatAttrs_only_src[of al] by auto
  with inOut show ?thesis by blast
qed

theorem script_is_embedded_witness:
  "embedResources (demoEnv False False)
     [Directive ''!doctype'' ''!DOCTYPE html'',
      Element ''tag'' ''html'' (Some [])
        [Element ''tag'' ''head'' (Some [])
           [Element ''script'' ''script'' (Some [(''src'', ''a.js'')]) []]]] =
     ([], Inr [Directive ''!doctype'' ''!DOCTYPE html'',
               Element ''tag'' ''html'' (Some [])
                 [Element ''tag'' ''head'' (Some [])
                    [Element ''script'' ''script'' (Some []) [Text ''X'']]]]) \<and>
   inDocument (Element ''script'' ''script'' (Some []) [Text ''X''])
     [Directive ''!doctype'' ''!DOCTYPE html'',
      Element ''tag'' ''html'' (Some [])
        [Element ''tag'' ''head'' (Some [])
           [Element ''script'' ''script'' (Some []) [Text ''X'']]]] \<and>
   sublist ''<script>X</script>''
     (renderAll
        [Directive ''!doctype'' ''!DOCTYPE html'',
         Element ''tag'' ''html'' (Some [])
           [Element ''tag'' ''head'' (Some [])
              [Element ''script'' ''script'' (Some []) [Text ''X'']]]])"
proof -
  let ?e = "demoEnv False False"
  let ?tag = "Element ''script'' ''script'' (Some [(''src'', ''a.js'')]) []"
  let ?tree = "[Directive ''!doctype'' ''!DOCTYPE html'',
      Element ''tag'' ''html'' (Some []) [Element ''tag'' ''head'' (Some []) [?tag]]]"
  let ?out = "[Directive ''!doctype'' ''!DOCTYPE html'',
      Element ''tag'' ''html'' (Some [])
        [Element ''tag'' ''head'' (Some [])
           [Element ''script'' ''script'' (Some []) [Text ''X'']]]]"
  have run: "embedResources ?e ?tree = ([], Inr ?out)"
    by code_simp
  have "inDocument ?tag [?tag]" by (rule inDocument.here) simp
  then have "inDocument ?tag [Element ''tag'' ''head'' (Some []) [?tag]]"
    by (rule inDocument.below[where nm="''head''" and at="Some []", rotated 3]) simp_all
  then have tag: "inDocument ?tag ?tree"
    by (rule inDocument.below[where nm="''html''" and at="Some []", rotated 3]) simp_all
  have fl: "existsSync ?e (path_join ?e (basePath ?e) ''a.js'')"
    "readFileSync ?e (path_join ?e (basePath ?e) ''a.js'') = Some ''X''"
    by (simp_all add: demoEnv_def demo_paths demoFiles_def)
  have ext: "\<not> isExternal ''a.js''" by (simp add: isExternal_def startsWith_def)
  from script_is_embedded[OF run tag _ _ ext fl] run show ?thesis by simp
qed

text \<open>The claim as stated promises \<^verbatim>\<open><script>X</script>\<close> for every such element. A script
  with a \<^verbatim>\<open>type\<close> attribute beside \<^verbatim>\<open>src\<close> keeps that attribute, and the output does not
  contain \<^verbatim>\<open><script>X</script>\<close>.\<close>

theorem script_other_attributes_counterexample:
  "embedResources (demoEnv False False)
     [Element ''script'' ''script'' (Some [(''type'', ''text/javascript''), (''src'', ''a.js'')]) []] =
     ([], Inr [Element ''script'' ''script'' (Some [(''type'', ''text/javascript'')]) [Text ''X'']]) \<and>
   renderAll [Element ''script'' ''script'' (Some [(''type'', ''text/javascript'')]) [Text ''X'']] =
     ''<script type='' @ [CHR 0x22] @ ''text/javascript'' @ [CHR 0x22] @ ''>X</script>'' \<and>
   \<not> sublist ''<script>X</script>''
     (renderAll [Element ''script'' ''script'' (Some [(''type'', ''text/javascript'')]) [Text ''X'']])"
  by code_simp

lemma forFound_unselected:
  assumes "forFound test f (Element ty nm at ch) = (l, Inr n')"
    and "\<not> test (Element ty nm at ch)"
  shows "\<exists>ch'. n' = Element ty nm at ch'"
  using assms by (auto split: if_splits prod.splits sum.splits)

lemma pass_keeps:
  assumes "forEachFound test f d = (l, Inr out)"
    and "inDocument (Element ty nm at ch) d"
    and "ch = [Text t] \<or> ch = []"
    and "\<not> test (Element ty nm at ch)"
    and "passesPlain test"
  shows "inDocument (Element ty nm at ch) out"
proof -
  from inDocument_forEachFound[OF assms(2) assms(1) assms(5)]
  obtain l' n' where a: "forFound test f (Element ty nm at ch) = (l', Inr n')"
    "inDocument n' out" by blast
  have "n' = Element ty nm at ch"
    using assms(3) a(1) assms(4) forFound_unselected_text forFound_unselected_empty by blast
  with a show ?thesis by simp
qed





section \<open>Claims on the CSS URL rewriter\<close>

lemma replaceFrom_skip: "replaceFrom e d (length pre) (pre @ rest) = replaceFrom e d 0 rest"
  by (induction pre) simp_all

lemma replaceFrom_unmatched:
  "(\<forall>i<length pre. matchAt (drop i (pre @ s)) = None) \<Longrightarrow>
   replaceFrom e d 0 (pre @ s) =
     (case replaceFrom e d 0 s of (l, Inl h) \<Rightarrow> (l, Inl h) | (l, Inr out) \<Rightarrow> (l, Inr (pre @ out)))"
proof (induction pre)
  case Nil
  then show ?case by (simp split: prod.splits sum.splits)
next
  case (Cons c pre)
  from Cons.prems have 0: "matchAt (c # pre @ s) = None" by force
  have "\<forall>i<length pre. matchAt (drop i (pre @ s)) = None"
  proof (intro allI impI)
    fix i assume "i < length pre"
    then have "Suc i < length (c # pre)" by simp
    with Cons.prems have "matchAt (drop (Suc i) ((c # pre) @ s)) = None" by blast
    then show "matchAt (drop i (pre @ s)) = None" by simp
  qed
  from Cons.IH[OF this] 0 show ?case by (simp split: prod.splits sum.splits)
qed

lemma replaceUrls_no_match:
  assumes "\<forall>i<length s. matchAt (drop i s) = None"
  shows "replaceUrls e d s = ([], Inr s)"
  using replaceFrom_unmatched[of s "[]" e d] assms by (simp add: replaceUrls_def ret_def)

lemma replaceFrom_matched:
  assumes "matchAt (c # cs) = Some (p1, rest)" and "cs = ms @ rest"
  shows "replaceFrom e d 0 (c # cs) =
     andThen (embedImage e d p1) (\<lambda>u. andThen (replaceFrom e d 0 rest) (\<lambda>out. ret (u @ out)))"
proof -
  have "replaceFrom e d (length cs - length rest) cs = replaceFrom e d 0 rest"
    using replaceFrom_skip[of e d ms rest] assms(2) by simp
  then show ?thesis
    using assms(1) by (simp add: andThen_def ret_def split: prod.splits sum.splits)
qed

text \<open>The characters of a path that the pattern reads as one path: no closing
  parenthesis, no quote, no line terminator.\<close>

lemma closing_clean:
  assumes "\<not> isQuote c" and "c \<noteq> CHR '')''"
  shows "closing (c # cs) = None"
  using assms by simp

lemma closing_end:
  assumes "q = [] \<or> (\<exists>c. q = [c] \<and> isQuote c)"
  shows "closing (q @ '')'' @ rest) = Some rest"
  using assms by (auto simp: isQuote_def)

lemma firstExtension_Some:
  "firstExtension s xs = Some r \<Longrightarrow> \<exists>x \<in> set xs. tryExtension s x = Some r"
  by (induction xs) (auto split: option.splits)

lemma firstExtension_not_None:
  "x \<in> set xs \<Longrightarrow> tryExtension s x \<noteq> None \<Longrightarrow> firstExtension s xs \<noteq> None"
  by (induction xs) (auto split: option.splits)

lemma toLower_mark: "c = CHR '')'' \<or> isQuote c \<Longrightarrow> toLower c = c"
  by (auto simp: toLower_def isQuote_def)

lemma extensions_letters:
  "x \<in> set extensions \<Longrightarrow> c \<in> set x \<Longrightarrow> c \<noteq> CHR '')'' \<and> \<not> isQuote c"
  by (auto simp: extensions_def isQuote_def)

lemma tryExtension_clean:
  assumes clean: "\<forall>c \<in> set w. \<not> isQuote c \<and> c \<noteq> CHR '')''"
    and q: "q = [] \<or> (\<exists>c. q = [c] \<and> isQuote c)"
    and x: "x \<in> set extensions"
    and t: "tryExtension (w @ q @ '')'' @ rest) x = Some (x', rest')"
  shows "x' = w \<and> rest' = rest"
proof -
  let ?s = "w @ q @ '')'' @ rest"
  let ?n = "length x"
  from t have ci: "toLowerCase (take ?n ?s) = x"
    and cl: "closing (drop ?n ?s) = Some rest'" and x': "x' = take ?n ?s"
    by (auto simp: tryExtension_def startsWithCI_def split: if_splits option.splits)
  consider "?n < length w" | "?n = length w" | "?n > length w" by linarith
  then show ?thesis
  proof cases
    case 1
    then obtain c cs where d: "drop ?n w = c # cs" by (cases "drop ?n w") auto
    then have "c \<in> set w" by (metis in_set_dropD list.set_intros(1))
    with clean have "\<not> isQuote c" "c \<noteq> CHR '')''" by auto
    moreover from 1 d have "drop ?n ?s = c # (cs @ q @ '')'' @ rest)" by simp
    ultimately have "closing (drop ?n ?s) = None" by simp
    with cl show ?thesis by simp
  next
    case 2
    then have "drop ?n ?s = q @ '')'' @ rest" "take ?n ?s = w" by simp_all
    with cl x' closing_end[OF q, of rest] show ?thesis by simp
  next
    case 3
    obtain m where m: "q @ '')'' @ rest = m # tl (q @ '')'' @ rest)" "m = CHR '')'' \<or> isQuote m"
      using q by auto
    from 3 have "take ?n ?s = w @ take (?n - length w) (q @ '')'' @ rest)" by simp
    also from 3 m(1) have "take (?n - length w) (q @ '')'' @ rest) =
        m # take (?n - length w - 1) (tl (q @ '')'' @ rest))"
      by (metis Suc_diff_Suc diff_Suc_1 take_Suc_Cons zero_less_diff Suc_pred' diff_is_0_eq' not_less_iff_gr_or_eq)
    finally have "m \<in> set (take ?n ?s)" by simp
    then have "toLower m \<in> toLower ` set (take ?n ?s)" by (rule imageI)
    then have "toLower m \<in> set (toLowerCase (take ?n ?s))" by (simp only: toLowerCase_def set_map)
    with ci toLower_mark[OF m(2)] have "m \<in> set x" by simp
    with extensions_letters[OF x] m(2) show ?thesis by blast
  qed
qed

lemma dotExtension_clean:
  assumes clean: "\<forall>c \<in> set w. \<not> isQuote c \<and> c \<noteq> CHR '')''"
    and q: "q = [] \<or> (\<exists>c. q = [c] \<and> isQuote c)"
    and t: "dotExtension (c # w @ q @ '')'' @ rest) = Some (x', rest')"
  shows "c = CHR ''.'' \<and> x' = w \<and> rest' = rest"
proof -
  from t have c: "c = CHR ''.''" and "firstExtension (w @ q @ '')'' @ rest) extensions = Some (x', rest')"
    by (auto split: if_splits)
  from firstExtension_Some[OF this(2)] obtain x where "x \<in> set extensions"
    "tryExtension (w @ q @ '')'' @ rest) x = Some (x', rest')" by blast
  from tryExtension_clean[OF clean q this] c show ?thesis by simp
qed

lemma dotExtension_end:
  assumes x: "toLowerCase x \<in> set extensions"
    and clean: "\<forall>c \<in> set x. \<not> isQuote c \<and> c \<noteq> CHR '')''"
    and q: "q = [] \<or> (\<exists>c. q = [c] \<and> isQuote c)"
  shows "dotExtension (CHR ''.'' # x @ q @ '')'' @ rest) = Some (x, rest)"
proof -
  have "tryExtension (x @ q @ '')'' @ rest) (toLowerCase x) = Some (x, rest)"
    using closing_end[OF q, of rest]
    by (simp add: tryExtension_def startsWithCI_def toLowerCase_def)
  with firstExtension_not_None[OF x, of "x @ q @ '')'' @ rest"]
  obtain r where r: "firstExtension (x @ q @ '')'' @ rest) extensions = Some r" by fastforce
  obtain x' rest' where "r = (x', rest')" by (cases r)
  with r have "dotExtension (CHR ''.'' # x @ q @ '')'' @ rest) = Some (x', rest')" by simp
  with dotExtension_clean[OF clean q this] show ?thesis by simp
qed

lemma list_all_upt: "list_all P [0..<n] \<longleftrightarrow> (\<forall>i<n. P i)"
  by (auto simp: list_all_iff)

lemma lineTerminatorAhead_append:
  "2 \<le> length w \<Longrightarrow> lineTerminatorAhead (c # w @ t) = lineTerminatorAhead (c # w)"
  by (simp add: lineTerminatorAhead_def)

lemma extension_length: "toLowerCase x \<in> set extensions \<Longrightarrow> 3 \<le> length x"
proof -
  assume "toLowerCase x \<in> set extensions"
  then have "3 \<le> length (toLowerCase x)" by (auto simp: extensions_def)
  then show ?thesis by (simp add: toLowerCase_def)
qed

lemma lazyPath_clean:
  assumes x: "toLowerCase x \<in> set extensions"
    and marks: "\<forall>c \<in> set (stem @ ''.'' @ x). \<not> isQuote c \<and> c \<noteq> CHR '')''"
    and lines: "\<forall>i<length (stem @ ''.'' @ x). \<not> lineTerminatorAhead (drop i (stem @ ''.'' @ x))"
    and q: "q = [] \<or> (\<exists>c. q = [c] \<and> isQuote c)"
  shows "lazyPath acc ((stem @ ''.'' @ x) @ q @ '')'' @ rest) = Some (acc @ stem @ ''.'' @ x, rest)"
  using marks lines
proof (induction stem arbitrary: acc)
  case Nil
  then have "\<forall>c \<in> set x. \<not> isQuote c \<and> c \<noteq> CHR '')''" by simp
  from dotExtension_end[OF x this q, of rest] show ?case by simp
next
  case (Cons c stem)
  let ?w = "stem @ ''.'' @ x"
  from Cons.prems(1) have cw: "\<forall>c \<in> set ?w. \<not> isQuote c \<and> c \<noteq> CHR '')''" by auto
  have cl: "\<forall>i<length ?w. \<not> lineTerminatorAhead (drop i ?w)"
  proof (intro allI impI)
    fix i assume "i < length ?w"
    then have "Suc i < length ((c # stem) @ ''.'' @ x)" by simp
    with Cons.prems(2) have "\<not> lineTerminatorAhead (drop (Suc i) ((c # stem) @ ''.'' @ x))" by blast
    then show "\<not> lineTerminatorAhead (drop i ?w)" by simp
  qed
  have "0 < length ((c # stem) @ ''.'' @ x)" by simp
  with Cons.prems(2) have "\<not> lineTerminatorAhead (drop 0 ((c # stem) @ ''.'' @ x))" by blast
  then have c0: "\<not> lineTerminatorAhead (c # ?w)" by simp
  have "2 \<le> length ?w" using extension_length[OF x] by simp
  from lineTerminatorAhead_append[OF this, of c "q @ '')'' @ rest"] c0
  have c: "\<not> lineTerminatorAhead (c # ?w @ q @ '')'' @ rest)" by simp
  show ?case
  proof (cases "dotExtension (c # ?w @ q @ '')'' @ rest)")
    case None
    with c Cons.IH[OF cw cl, of "acc @ [c]"] show ?thesis by simp
  next
    case (Some r)
    obtain x' rest' where r: "r = (x', rest')" by (cases r)
    from dotExtension_clean[OF cw q Some[unfolded r]] have "x' = ?w" "rest' = rest" by simp_all
    with Some r show ?thesis by simp
  qed
qed

lemma matchAt_clean:
  assumes u: "toLowerCase u = ''url(''"
    and x: "toLowerCase x \<in> set extensions"
    and clean: "cleanPath (stem @ ''.'' @ x)"
    and q1: "q1 = [] \<or> (\<exists>c. q1 = [c] \<and> isQuote c)"
    and q2: "q2 = [] \<or> (\<exists>c. q2 = [c] \<and> isQuote c)"
  shows "matchAt (u @ q1 @ (stem @ ''.'' @ x) @ q2 @ '')'' @ rest) = Some (stem @ ''.'' @ x, rest)"
proof -
  let ?P = "stem @ ''.'' @ x"
  let ?t = "?P @ q2 @ '')'' @ rest"
  from clean have a: "list_all (\<lambda>c. \<not> isQuote c \<and> c \<noteq> CHR '')'') ?P"
    and b: "list_all (\<lambda>i. \<not> lineTerminatorAhead (drop i ?P)) [0..<length ?P]"
    by (simp_all only: cleanPath_def)
  from a have marks: "\<forall>c \<in> set ?P. \<not> isQuote c \<and> c \<noteq> CHR '')''"
    by (simp only: list_all_iff)
  from b have lines: "\<forall>i<length ?P. \<not> lineTerminatorAhead (drop i ?P)"
    by (simp only: list_all_upt)
  from u have "length (toLowerCase u) = length ''url(''" by (rule arg_cong)
  then have lu: "length u = 4" by (simp add: toLowerCase_def)
  have lp: "lazyPath [] ?t = Some (?P, rest)"
    using lazyPath_clean[OF x marks lines q2, of "[]" rest] by simp
  have "hd ?t \<in> set ?P" by (cases stem) simp_all
  with marks have nq: "\<not> isQuote (hd ?t)" by blast
  have m: "matchAt (u @ r) =
      (if r \<noteq> [] \<and> isQuote (hd r) then
         (case lazyPath [] (tl r) of Some m \<Rightarrow> Some m | None \<Rightarrow> lazyPath [] r)
       else lazyPath [] r)" for r
    using lu u by (simp add: matchAt_def startsWithCI_def)
  from q1 show ?thesis
  proof
    assume "q1 = []"
    then have "matchAt (u @ q1 @ ?t) = lazyPath [] ?t"
      using m[of ?t] nq by (simp only: append_Nil if_False simp_thms)
    with lp show ?thesis by (simp only:)
  next
    assume "\<exists>c. q1 = [c] \<and> isQuote c"
    then obtain c where c: "q1 = [c]" "isQuote c" by blast
    have "matchAt (u @ (c # ?t)) = Some (?P, rest)"
      using m[of "c # ?t"] c(2) lp
      by (simp only: list.sel list.distinct simp_thms if_True not_False_eq_True option.case)
    with c(1) show ?thesis by simp
  qed
qed

lemma occurrence_inside:
  "i < length a \<Longrightarrow> take 4 (drop i (a @ ''url('' @ b)) = ''url('' \<Longrightarrow> sublist ''url('' a"
proof (induction a arbitrary: i)
  case Nil
  then show ?case by simp
next
  case (Cons c a)
  show ?case
  proof (cases i)
    case (Suc j)
    with Cons.prems have "j < length a" "take 4 (drop j (a @ ''url('' @ b)) = ''url(''" by simp_all
    from Cons.IH[OF this] have "sublist ''url('' a" .
    then show ?thesis by (simp add: sublist_Cons_right)
  next
    case 0
    with Cons.prems(2) have t: "take 4 (c # a @ ''url('' @ b) = ''url(''" by simp
    show ?thesis
    proof (cases a)
      case Nil
      with t show ?thesis by simp
    next
      case (Cons x a1)
      note a = this
      show ?thesis
      proof (cases a1)
        case Nil
        with t a show ?thesis by simp
      next
        case (Cons y a2)
        note a1 = this
        show ?thesis
        proof (cases a2)
          case Nil
          with t a a1 show ?thesis by simp
        next
          case (Cons z r)
          with t a a1 have "c # a = ''url('' @ r" by simp
          then show ?thesis by (metis sublist_append_rightI)
        qed
      qed
    qed
  qed
qed

lemma matchAt_url: "matchAt t = Some m \<Longrightarrow> startsWithCI t ''url(''"
  by (simp add: matchAt_def split: if_splits)

lemma startsWithCI_lower:
  "startsWithCI (drop i s) ''url('' \<longleftrightarrow> take 4 (drop i (toLowerCase s)) = ''url(''"
proof -
  have l: "length ''url('' = (4::nat)" by simp
  show ?thesis
    unfolding startsWithCI_def l toLowerCase_def by (simp only: take_map drop_map)
qed

lemma no_match_before:
  assumes pre: "\<not> sublist ''url('' (toLowerCase pre)"
    and u: "toLowerCase u = ''url(''"
  shows "\<forall>i<length pre. matchAt (drop i (pre @ u @ s)) = None"
proof (intro allI impI)
  fix i assume i: "i < length pre"
  show "matchAt (drop i (pre @ u @ s)) = None"
  proof (rule ccontr)
    assume "matchAt (drop i (pre @ u @ s)) \<noteq> None"
    then obtain m where "matchAt (drop i (pre @ u @ s)) = Some m" by blast
    from matchAt_url[OF this]
    have "take 4 (drop i (toLowerCase (pre @ u @ s))) = ''url(''"
      by (simp only: startsWithCI_lower)
    moreover have "toLowerCase (pre @ u @ s) = toLowerCase pre @ ''url('' @ toLowerCase s"
      using u by (simp add: toLowerCase_def)
    moreover have "i < length (toLowerCase pre)" using i by (simp add: toLowerCase_def)
    ultimately have "sublist ''url('' (toLowerCase pre)"
      using occurrence_inside[of i "toLowerCase pre" "toLowerCase s"] by simp
    with pre show False by blast
  qed
qed

lemma no_match_without_url:
  assumes "\<not> sublist ''url('' (toLowerCase s)"
  shows "\<forall>i<length s. matchAt (drop i s) = None"
proof (intro allI impI)
  fix i assume i: "i < length s"
  show "matchAt (drop i s) = None"
  proof (rule ccontr)
    assume "matchAt (drop i s) \<noteq> None"
    then obtain m where "matchAt (drop i s) = Some m" by blast
    from matchAt_url[OF this]
    have "take 4 (drop i (toLowerCase s)) = ''url(''" by (simp only: startsWithCI_lower)
    then have "toLowerCase s = take i (toLowerCase s) @ ''url('' @ drop 4 (drop i (toLowerCase s))"
      by (metis append_take_drop_id)
    then have "sublist ''url('' (toLowerCase s)" by (metis sublist_appendI)
    with assms show False by blast
  qed
qed

lemma embedImage_cases:
  "embedImage e d p =
     ((if verbose e then [''Fetching image for css resource '' @ path_join e d p] else []),
      (case base64Sync e (path_join e d p) of
         None \<Rightarrow> Inl (Uncaught ''base64Sync'')
       | Some uri \<Rightarrow> Inr (''url('' @ uri @ '')'')))"
  by (simp add: embedImage_def Let_def verboseLog_def say_def ret_def stop_def andThen_def
      split: option.splits)

lemma rewriter_first_reference:
  assumes u: "toLowerCase u = ''url(''"
    and x: "toLowerCase x \<in> set extensions"
    and clean: "cleanPath (stem @ ''.'' @ x)"
    and q1: "q1 = [] \<or> (\<exists>c. q1 = [c] \<and> isQuote c)"
    and q2: "q2 = [] \<or> (\<exists>c. q2 = [c] \<and> isQuote c)"
    and pre: "\<not> sublist ''url('' (toLowerCase pre)"
    and res: "replaceUrls e d (pre @ u @ q1 @ (stem @ ''.'' @ x) @ q2 @ '')'' @ rest) = (lr, Inr Y)"
  shows "\<exists>uri lr' out'. base64Sync e (path_join e d (stem @ ''.'' @ x)) = Some uri \<and>
     replaceUrls e d rest = (lr', Inr out') \<and> Y = pre @ ''url('' @ uri @ '')'' @ out'"
proof -
  let ?P = "stem @ ''.'' @ x"
  from u have "length (toLowerCase u) = length ''url(''" by (rule arg_cong)
  then have "length u = 4" by (simp add: toLowerCase_def)
  then obtain c us where uc: "u = c # us" by (cases u) simp_all
  have m: "matchAt (c # us @ q1 @ ?P @ q2 @ '')'' @ rest) = Some (?P, rest)"
    using matchAt_clean[OF u x clean q1 q2, of rest] uc by simp
  have one: "replaceFrom e d 0 (c # us @ q1 @ ?P @ q2 @ '')'' @ rest) =
     andThen (embedImage e d ?P) (\<lambda>v. andThen (replaceFrom e d 0 rest) (\<lambda>out. ret (v @ out)))"
    by (rule replaceFrom_matched[OF m, of "us @ q1 @ ?P @ q2 @ '')''"]) simp
  from no_match_before[OF pre u, of "q1 @ ?P @ q2 @ '')'' @ rest"]
  have "\<forall>i<length pre. matchAt (drop i (pre @ c # us @ q1 @ ?P @ q2 @ '')'' @ rest)) = None"
    using uc by simp
  from one replaceFrom_unmatched[OF this, of e d] res uc
  have "(case andThen (embedImage e d ?P)
              (\<lambda>v. andThen (replaceFrom e d 0 rest) (\<lambda>out. ret (v @ out))) of
          (l, Inl h) \<Rightarrow> (l, Inl h) | (l, Inr out) \<Rightarrow> (l, Inr (pre @ out))) = (lr, Inr Y)"
    by (simp add: replaceUrls_def del: replaceFrom.simps)
  note r = this
  obtain l2 r2 where t: "replaceFrom e d 0 rest = (l2, r2)" by (cases "replaceFrom e d 0 rest")
  show ?thesis
  proof (cases "base64Sync e (path_join e d ?P)")
    case None
    with r show ?thesis by (simp add: embedImage_cases andThen_def)
  next
    case (Some uri)
    show ?thesis
    proof (cases r2)
      case (Inl halted)
      with r t Some show ?thesis by (simp add: embedImage_cases andThen_def)
    next
      case (Inr out')
      with r t Some have "Y = pre @ ''url('' @ uri @ '')'' @ out'"
        by (simp add: embedImage_cases andThen_def ret_def)
      with t Inr Some show ?thesis by (simp add: replaceUrls_def)
    qed
  qed
qed

lemma embedLink_cases:
  assumes "map_of al ''rel'' = Some r" and "r \<noteq> []"
    and "map_of al ''href'' = Some h" and "h \<noteq> []" and "\<not> isExternal h"
    and "existsSync e (path_join e (basePath e) h)"
    and "readFileSync e (path_join e (basePath e) h) = Some data"
  shows "embedLink e (Element ty nm (Some al) ch) =
     (case replaceUrls e (path_dirname e (path_join e (basePath e) h)) data of
        (lr, Inl halted) \<Rightarrow>
          ((if verbose e then [''Fetching stylesheet '' @ h] else []) @ lr, Inl halted)
      | (lr, Inr Y) \<Rightarrow>
          ((if verbose e then [''Fetching stylesheet '' @ h] else []) @ lr,
           Inr (Element ''style'' ''style'' None [Text Y])))"
  using assms
  by (simp add: embedLink_def fetchLocal_def embedText_def truthy_def orElse_def
      verboseLog_def say_def ret_def andThen_def split: prod.splits sum.splits)

lemma forFound_selected:
  assumes "forFound test f (Element ty nm at ch) = (l, Inr n')"
    and "test (Element ty nm at ch)" and "isTag ty"
  shows "\<exists>l1 m. f (Element ty nm at ch) = (l1, Inr m)"
  using assms by (auto split: prod.splits sum.splits)

text \<open>
  C3. The claim: every \<^verbatim>\<open>url(...)\<close> whose path ends in an allow-listed image extension is
  replaced by the data URI of that path, and every other \<^verbatim>\<open>url(...)\<close> is left untouched.
  The lazy \<^verbatim>\<open>.*?\<close> of the pattern runs over closing parentheses. In
  \<^verbatim>\<open>url(a.woff) url(d.png)\<close> the match starts at the first \<^verbatim>\<open>url(\<close> and takes
  \<^verbatim>\<open>a.woff) url(d.png\<close> as the path; that is no file, the encoder throws, and a document
  that links such a stylesheet is not written. Each of the two references alone is
  treated as the claim says.
\<close>

theorem css_reference_swallowed:
  "matchAt ''url(a.woff) url(d.png)'' = Some (''a.woff) url(d.png'', []) \<and>
   replaceUrls (demoEnv False False) ''src'' ''url(a.woff) url(d.png)'' =
     ([], Inl (Uncaught ''base64Sync'')) \<and>
   replaceUrls (demoEnv False False) ''src'' ''url(d.png)'' =
     ([], Inr ''url(data:image/png;base64,UE5H)'') \<and>
   replaceUrls (demoEnv False False) ''src'' ''url(a.woff)'' = ([], Inr ''url(a.woff)'') \<and>
   embedResources (demoEnv False False)
     [Element ''tag'' ''link'' (Some [(''rel'', ''stylesheet''), (''href'', ''fonts.css'')]) []] =
     ([], Inl (Uncaught ''base64Sync''))"
  by code_simp

text \<open>
  C2 (as amended). For every link element of the document with \<^verbatim>\<open>rel\<close> and \<^verbatim>\<open>href\<close> both
  present and not empty, whose \<^verbatim>\<open>href\<close> is not external and names a file that exists: when
  the pass completes, the element has no attributes, its type and its name are \<^verbatim>\<open>style\<close>,
  its children are the single text node \<open>Y\<close>, and the written output contains
  \<^verbatim>\<open><style>Y</style>\<close>. \<open>Y\<close> is what the CSS URL rewriter returns for the file's content,
  with the directory of the stylesheet file as base: the content itself when it holds
  no \<^verbatim>\<open>url(\<close> in any case; and, when the first \<^verbatim>\<open>url(\<close> of the content opens a reference,
  quoted or not, to a path without quote, closing parenthesis or line terminator that
  ends in a dot and an allow-listed extension, the text before the reference, then
  \<^verbatim>\<open>url(<dataUri>)\<close> for that path joined to the base, then what the rewriter returns
  for the text behind the reference.
\<close>

theorem link_becomes_style:
  assumes run: "embedResources e tree = (l, Inr out)"
    and tag: "inDocument (Element ''tag'' ''link'' (Some al) ch) tree"
    and rel: "map_of al ''rel'' = Some r" "r \<noteq> []"
    and href: "map_of al ''href'' = Some h" "h \<noteq> []" "\<not> isExternal h"
    and fl: "existsSync e (path_join e (basePath e) h)"
      "readFileSync e (path_join e (basePath e) h) = Some data"
  shows "\<exists>lr Y.
    replaceUrls e (path_dirname e (path_join e (basePath e) h)) data = (lr, Inr Y) \<and>
    inDocument (Element ''style'' ''style'' None [Text Y]) out \<and>
    sublist (''<style>'' @ Y @ ''</style>'') (renderAll out) \<and>
    (\<not> sublist ''url('' (toLowerCase data) \<longrightarrow> Y = data) \<and>
    (data = pre @ u @ q1 @ (stem @ ''.'' @ x) @ q2 @ '')'' @ rest \<longrightarrow>
     \<not> sublist ''url('' (toLowerCase pre) \<longrightarrow>
     toLowerCase u = ''url('' \<longrightarrow>
     (q1 = [] \<or> (\<exists>c. q1 = [c] \<and> isQuote c)) \<longrightarrow>
     (q2 = [] \<or> (\<exists>c. q2 = [c] \<and> isQuote c)) \<longrightarrow>
     toLowerCase x \<in> set extensions \<longrightarrow>
     cleanPath (stem @ ''.'' @ x) \<longrightarrow>
       (\<exists>uri lr' out'.
          base64Sync e
            (path_join e (path_dirname e (path_join e (basePath e) h)) (stem @ ''.'' @ x)) = Some uri \<and>
          replaceUrls e (path_dirname e (path_join e (basePath e) h)) rest = (lr', Inr out') \<and>
          Y = pre @ ''url('' @ uri @ '')'' @ out'))"
proof -
  let ?dir = "path_dirname e (path_join e (basePath e) h)"
  from embedResources_Inr[OF run] obtain l1 d1 l2 d2 l3 where
    p1: "forEachFound (typeIs ''script'') (embedScript e) tree = (l1, Inr d1)" and
    p2: "forEachFound (nameIs ''link'') (embedLink e) d1 = (l2, Inr d2)" and
    p3: "if images e then forEachFound (nameIs ''img'') (embedImg e) d2 = (l3, Inr out)
         else out = d2" by blast
  from inDocument_forEachFound[OF tag p1 passesPlain_tests(1)]
  obtain l' n1 where a:
    "forFound (typeIs ''script'') (embedScript e) (Element ''tag'' ''link'' (Some al) ch) = (l', Inr n1)"
    "inDocument n1 d1" by blast
  from forFound_unselected[OF a(1)] obtain ch1 where n1: "n1 = Element ''tag'' ''link'' (Some al) ch1"
    by auto
  from inDocument_forEachFound[OF a(2) p2 passesPlain_tests(2)]
  obtain l'' n2 where b: "forFound (nameIs ''link'') (embedLink e) n1 = (l'', Inr n2)"
    "inDocument n2 d2" by blast
  from forFound_selected[OF b(1)[unfolded n1]] obtain l3' m where
    emb: "embedLink e (Element ''tag'' ''link'' (Some al) ch1) = (l3', Inr m)"
    by (auto simp: isTag_def)
  obtain lr res where rw: "replaceUrls e ?dir data = (lr, res)" by (cases "replaceUrls e ?dir data")
  from emb rw embedLink_cases[OF rel href fl, of "''tag''" "''link''" ch1]
  obtain Y where Y: "res = Inr Y" and m: "m = Element ''style'' ''style'' None [Text Y]"
    by (cases res) simp_all
  let ?new = "Element ''style'' ''style'' None [Text Y]"
  have "n2 = ?new"
    by (rule forFound_replaced[OF b(1)[unfolded n1] _ _ emb[unfolded m]]) (simp_all add: isTag_def)
  with b(2) have in2: "inDocument ?new d2" by simp
  have inOut: "inDocument ?new out"
  proof (cases "images e")
    case False
    with p3 in2 show ?thesis by simp
  next
    case True
    with p3 have "forEachFound (nameIs ''img'') (embedImg e) d2 = (l3, Inr out)" by simp
    from pass_keeps[OF this in2 _ _ passesPlain_tests(3)] show ?thesis by simp
  qed
  from inDocument_rendered[OF inOut]
  have rendered: "sublist (''<style>'' @ Y @ ''</style>'') (renderAll out)"
    by (simp add: isTag_def singleTag_def)
  have plain: "\<not> sublist ''url('' (toLowerCase data) \<longrightarrow> Y = data"
  proof
    assume "\<not> sublist ''url('' (toLowerCase data)"
    from replaceUrls_no_match[OF no_match_without_url[OF this], of e ?dir] rw Y
    show "Y = data" by simp
  qed
  have first: "\<exists>uri lr' out'.
      base64Sync e (path_join e ?dir (stem @ ''.'' @ x)) = Some uri \<and>
      replaceUrls e ?dir rest = (lr', Inr out') \<and> Y = pre @ ''url('' @ uri @ '')'' @ out'"
    if "data = pre @ u @ q1 @ (stem @ ''.'' @ x) @ q2 @ '')'' @ rest"
      and "\<not> sublist ''url('' (toLowerCase pre)" and "toLowerCase u = ''url(''"
      and "q1 = [] \<or> (\<exists>c. q1 = [c] \<and> isQuote c)" and "q2 = [] \<or> (\<exists>c. q2 = [c] \<and> isQuote c)"
      and "toLowerCase x \<in> set extensions" and "cleanPath (stem @ ''.'' @ x)"
  proof -
    from that(1) rw Y
    have "replaceUrls e ?dir (pre @ u @ q1 @ (stem @ ''.'' @ x) @ q2 @ '')'' @ rest) = (lr, Inr Y)"
      by (simp only:)
    from rewriter_first_reference[OF that(3) that(6) that(7) that(4) that(5) that(2) this]
    show ?thesis .
  qed
  show ?thesis
  proof (intro exI conjI)
    show "replaceUrls e ?dir data = (lr, Inr Y)" using rw Y by (simp only:)
    show "inDocument ?new out" by (rule inOut)
    show "sublist (''<style>'' @ Y @ ''</style>'') (renderAll out)" by (rule rendered)
    show "\<not> sublist ''url('' (toLowerCase data) \<longrightarrow> Y = data" by (rule plain)
    show "data = pre @ u @ q1 @ (stem @ ''.'' @ x) @ q2 @ '')'' @ rest \<longrightarrow>
     \<not> sublist ''url('' (toLowerCase pre) \<longrightarrow>
     toLowerCase u = ''url('' \<longrightarrow>
     (q1 = [] \<or> (\<exists>c. q1 = [c] \<and> isQuote c)) \<longrightarrow>
     (q2 = [] \<or> (\<exists>c. q2 = [c] \<and> isQuote c)) \<longrightarrow>
     toLowerCase x \<in> set extensions \<longrightarrow>
     cleanPath (stem @ ''.'' @ x) \<longrightarrow>
       (\<exists>uri lr' out'.
          base64Sync e (path_join e ?dir (stem @ ''.'' @ x)) = Some uri \<and>
          replaceUrls e ?dir rest = (lr', Inr out') \<and>
          Y = pre @ ''url('' @ uri @ '')'' @ out')"
      by (intro impI, rule first, assumption+)
  qed
qed

theorem link_becomes_style_witness:
  "embedResources (demoEnv False False)
     [Element ''tag'' ''head'' (Some [])
        [Element ''tag'' ''link'' (Some [(''rel'', ''stylesheet''), (''href'', ''b.css'')]) []]] =
     ([], Inr [Element ''tag'' ''head'' (Some [])
                 [Element ''style'' ''style'' None
                    [Text ''p{background:url(data:image/png;base64,UE5H)}'']]]) \<and>
   sublist ''<style>p{background:url(data:image/png;base64,UE5H)}</style>''
     (renderAll
        [Element ''tag'' ''head'' (Some [])
           [Element ''style'' ''style'' None
              [Text ''p{background:url(data:image/png;base64,UE5H)}'']]])"
proof -
  let ?e = "demoEnv False False"
  let ?al = "[(''rel'', ''stylesheet''), (''href'', ''b.css'')]"
  let ?tag = "Element ''tag'' ''link'' (Some ?al) []"
  let ?tree = "[Element ''tag'' ''head'' (Some []) [?tag]]"
  let ?out = "[Element ''tag'' ''head'' (Some [])
           [Element ''style'' ''style'' None
              [Text ''p{background:url(data:image/png;base64,UE5H)}'']]]"
  let ?dir = "path_dirname ?e (path_join ?e (basePath ?e) ''b.css'')"
  have run: "embedResources ?e ?tree = ([], Inr ?out)"
    by code_simp
  have "inDocument ?tag [?tag]" by (rule inDocument.here) simp
  then have tag: "inDocument ?tag ?tree"
    by (rule inDocument.below[where nm="''head''" and at="Some []", rotated 3]) simp_all
  have fl: "existsSync ?e (path_join ?e (basePath ?e) ''b.css'')"
    "readFileSync ?e (path_join ?e (basePath ?e) ''b.css'') = Some ''p{background:url(img/c.png)}''"
    by (simp_all add: demoEnv_def demo_paths demoFiles_def)
  have ext: "\<not> isExternal ''b.css''" by (simp add: isExternal_def startsWith_def)
  have rel: "map_of ?al ''rel'' = Some ''stylesheet''" "''stylesheet'' \<noteq> []"
    and href: "map_of ?al ''href'' = Some ''b.css''" "''b.css'' \<noteq> []" by simp_all
  have shape: "''p{background:url(img/c.png)}'' =
      ''p{background:'' @ ''url('' @ [] @ (''img/c'' @ ''.'' @ ''png'') @ [] @ '')'' @ ''}''" by simp
  have pre: "\<not> sublist ''url('' (toLowerCase ''p{background:'')" by code_simp
  have u: "toLowerCase ''url('' = ''url(''" by code_simp
  have x: "toLowerCase ''png'' \<in> set extensions" by code_simp
  have clean: "cleanPath (''img/c'' @ ''.'' @ ''png'')" by code_simp
  have img: "base64Sync ?e (path_join ?e ?dir (''img/c'' @ ''.'' @ ''png'')) =
      Some ''data:image/png;base64,UE5H''" by code_simp
  have tail: "replaceUrls ?e ?dir ''}'' = ([], Inr ''}'')" by code_simp
  from link_becomes_style[OF run tag rel href ext fl,
      of "''p{background:''" "''url(''" "[]" "''img/c''" "''png''" "[]" "''}''"]
  obtain lr Y where Y: "sublist (''<style>'' @ Y @ ''</style>'') (renderAll ?out)"
    and first: "''p{background:url(img/c.png)}'' =
        ''p{background:'' @ ''url('' @ [] @ (''img/c'' @ ''.'' @ ''png'') @ [] @ '')'' @ ''}'' \<longrightarrow>
      \<not> sublist ''url('' (toLowerCase ''p{background:'') \<longrightarrow>
      toLowerCase ''url('' = ''url('' \<longrightarrow>
      ([] = [] \<or> (\<exists>c. [] = [c] \<and> isQuote c)) \<longrightarrow>
      ([] = [] \<or> (\<exists>c. [] = [c] \<and> isQuote c)) \<longrightarrow>
      toLowerCase ''png'' \<in> set extensions \<longrightarrow>
      cleanPath (''img/c'' @ ''.'' @ ''png'') \<longrightarrow>
        (\<exists>uri lr' out'.
           base64Sync ?e (path_join ?e ?dir (''img/c'' @ ''.'' @ ''png'')) = Some uri \<and>
           replaceUrls ?e ?dir ''}'' = (lr', Inr out') \<and>
           Y = ''p{background:'' @ ''url('' @ uri @ '')'' @ out')"
    by blast
  from first shape pre u x clean obtain uri lr' out' where
    "base64Sync ?e (path_join ?e ?dir (''img/c'' @ ''.'' @ ''png'')) = Some uri"
    "replaceUrls ?e ?dir ''}'' = (lr', Inr out')"
    "Y = ''p{background:'' @ ''url('' @ uri @ '')'' @ out'"
    by blast
  with img tail have "Y = ''p{background:url(data:image/png;base64,UE5H)}''" by simp
  with Y run show ?thesis by simp
qed

text \<open>The claim as stated promises the style element for every such link. The encoder
  reads the image files the stylesheet names without a test that they exist: a
  stylesheet that names a missing image ends the process with the error of the read,
  and no output is written.\<close>

theorem link_stylesheet_missing_image_counterexample:
  "existsSync (demoEnv False False) ''src/broken.css'' \<and>
   readFileSync (demoEnv False False) ''src/broken.css'' = Some ''p{background:url(gone.png)}'' \<and>
   embedResources (demoEnv False False)
     [Element ''tag'' ''head'' (Some [])
        [Element ''tag'' ''link'' (Some [(''rel'', ''stylesheet''), (''href'', ''broken.css'')]) []]] =
     ([], Inl (Uncaught ''base64Sync''))"
  by code_simp

section \<open>The stylesheet pass and the value of rel\<close>




section \<open>Claims on the input files and the completion counters\<close>

lemma split_no_separator: "sep \<notin> set s \<Longrightarrow> split sep s = [s]"
  by (induction s) auto

lemma isHtmlFile_iff:
  "isHtmlFile file \<longleftrightarrow>
     extensionIsHtml file \<or> (CHR ''.'' \<notin> set file \<and> toLowerCase file = ''html'')"
  by (cases "CHR ''.'' \<in> set file")
     (simp_all add: isHtmlFile_def extensionIsHtml_def extensionOf_def split_no_separator)

text \<open>
  C7. The claim: an entry of the source directory is selected if and only if its
  extension, compared without regard to case, is \<^verbatim>\<open>html\<close>. The code takes the last piece of
  the name split at the dots, and for a name without a dot that piece is the whole name:
  the entry \<^verbatim>\<open>html\<close>, which has no extension, is selected beside \<^verbatim>\<open>index.HTML\<close>. The entries
  are filtered as they are listed; no entry is opened as a directory.
\<close>

theorem name_without_dot_selected:
  "htmlFiles [''index.HTML'', ''html'', ''notes.txt'', ''a.html.bak''] = [''index.HTML'', ''html''] \<and>
   isHtmlFile ''html'' \<and> extensionOf ''html'' = None \<and> \<not> extensionIsHtml ''html''"
  by code_simp

text \<open>With a constructor that had the function called in the callback, the counters
  would behave as claimed: after any number of successful writes the processed count is
  the number of callbacks run, and \<^verbatim>\<open>Done :)\<close> is printed once, by the callback that brings
  the count to the number of files.\<close>

lemma writeCallback_ok:
  "writeCallback True e st p None =
     ((if verbose e then [''Success!''] else []) @
      (if Suc (numberOfFilesProcessed st) = numberOfFilesToProcess st then [''Done :)''] else []),
      Inr (st\<lparr>numberOfFilesProcessed := Suc (numberOfFilesProcessed st)\<rparr>))"
  by (simp add: writeCallback_def assertError_def verboseLog_def say_def ret_def andThen_def Let_def)

lemma writeCallbacks_counts:
  assumes "\<forall>w \<in> set ws. snd w = None"
  shows "\<exists>lg st'. writeCallbacks True e st ws = (lg, Inr st') \<and>
     numberOfFilesToProcess st' = numberOfFilesToProcess st \<and>
     numberOfFilesProcessed st' = numberOfFilesProcessed st + length ws \<and>
     count_list lg ''Done :)'' =
       (if numberOfFilesProcessed st < numberOfFilesToProcess st \<and>
           numberOfFilesToProcess st \<le> numberOfFilesProcessed st + length ws then 1 else 0)"
  using assms
proof (induction ws arbitrary: st)
  case Nil
  then show ?case by simp
next
  case (Cons w ws)
  obtain p where w: "w = (p, None)" using Cons.prems by (cases w) auto
  let ?st = "st\<lparr>numberOfFilesProcessed := Suc (numberOfFilesProcessed st)\<rparr>"
  from Cons.prems have "\<forall>w \<in> set ws. snd w = None" by simp
  from Cons.IH[OF this, of ?st] obtain lg st' where
    r: "writeCallbacks True e ?st ws = (lg, Inr st')"
      "numberOfFilesToProcess st' = numberOfFilesToProcess st"
      "numberOfFilesProcessed st' = Suc (numberOfFilesProcessed st) + length ws"
      "count_list lg ''Done :)'' =
       (if Suc (numberOfFilesProcessed st) < numberOfFilesToProcess st \<and>
           numberOfFilesToProcess st \<le> Suc (numberOfFilesProcessed st) + length ws then 1 else 0)"
    by auto
  show ?case
    using r w by (auto simp: writeCallback_ok)
qed

text \<open>
  C8. The claim: the completion signal fires exactly once, after all \<open>N\<close> writes have
  finished. The spinner library defines \<^verbatim>\<open>setSpinnerTitle\<close> on spinner instances only, so
  \<open>static\<close> is \<open>False\<close>. With two files queued, the first write callback leaves the
  processed count at one of two, takes the other branch, and the call on the constructor
  throws: the process ends before \<^verbatim>\<open>Done :)\<close> is printed. With one file the signal is printed.
\<close>

theorem second_file_never_done:
  "readdirCallback (demoEnv False False) [''a.html'', ''b.html'', ''img''] =
     ([''Processing 2 html files in directory src/''],
      Inr (\<lparr>numberOfFilesToProcess = 2, numberOfFilesProcessed = 0\<rparr>, [''a.html'', ''b.html''])) \<and>
   writeCallbacks False (demoEnv False False)
     \<lparr>numberOfFilesToProcess = 2, numberOfFilesProcessed = 0\<rparr>
     [(''dist/a.html'', None), (''dist/b.html'', None)] =
     ([], Inl (Uncaught ''TypeError'')) \<and>
   writeCallbacks False (demoEnv False False)
     \<lparr>numberOfFilesToProcess = 1, numberOfFilesProcessed = 0\<rparr> [(''dist/a.html'', None)] =
     ([''Done :)''], Inr \<lparr>numberOfFilesToProcess = 1, numberOfFilesProcessed = 1\<rparr>) \<and>
   readdirCallback (demoEnv False False) [''notes.txt'', ''img''] =
     ([''Did not find any .html files in directory src/''],
      Inr (\<lparr>numberOfFilesToProcess = 0, numberOfFilesProcessed = 0\<rparr>, []))"
  by code_simp

end
